theory Spec2Isabelle
  imports Complex_Main
begin

section \<open>Data model\<close>

text \<open>
  The annotation tool of \<^verbatim>\<open>src/main.py\<close> keeps its state in the attributes of
  \<^verbatim>\<open>ImageWidget\<close>, \<^verbatim>\<open>MainWidget\<close> and the status-bar labels of \<^verbatim>\<open>MyApp\<close>. The record
  \<open>app\<close> collects the attributes the event handlers read and write, together with the
  part of the file system they touch and the message boxes they have shown. Pixmaps and
  painting (\<^verbatim>\<open>drawResultBox\<close>, \<^verbatim>\<open>paintEvent\<close>, \<^verbatim>\<open>mouseMoveEvent\<close>) are not modelled.
  A handler that raises returns the exception (\<open>Inl\<close>) and no state: PyQt5 ends the
  program on an exception that leaves a handler.

  A bounding box is the Python list the code stores: \<^verbatim>\<open>[lx, ly, rx, ry]\<close> while it has
  no label and \<^verbatim>\<open>[lx, ly, rx, ry, idx]\<close> once it has one. Python integers are unbounded,
  so the fields are \<open>int\<close>.
\<close>

datatype error =
  ValueError | ZeroDivisionError | IndexError | TypeError | AttributeError
  | FileNotFoundError | Cv2Error

type_synonym box = "int list"

type_synonym yolo_line = "int \<times> real \<times> real \<times> real \<times> real"

type_synonym crop_rect = "int \<times> int \<times> int \<times> int"

datatype button = LeftButton | RightButton | MiddleButton

record app =
  results :: "box list"
  last_idx :: int
  drawing :: bool
  lastPoint :: "int \<times> int"
  key_config :: "string list"
  screen_height :: int
  W :: int
  H :: int
  fileName :: string
  autoLabel :: string
  savePathLabel :: string
  crop_mode :: bool
  save_directory :: "string option"
  currentImg :: string
  imgList :: "string list option"
  total_imgs :: "nat option"
  progress :: string
  files :: "string \<rightharpoonup> yolo_line list"
  dirs :: "string set"
  crops :: "string \<rightharpoonup> crop_rect"
  popups :: "(string \<times> string) list"

text \<open>
  The state right after the constructors have run (\<^verbatim>\<open>MyApp.initUI\<close>,
  \<^verbatim>\<open>ImageWidget.__init__\<close>, \<^verbatim>\<open>MainWidget.__init__\<close>). The label list and the screen
  height come from \<^verbatim>\<open>config.json\<close> and the desktop. The attributes \<^verbatim>\<open>imgList\<close> and
  \<^verbatim>\<open>total_imgs\<close> do not exist until an input directory is registered: they are \<open>None\<close>,
  and reading them then raises \<^verbatim>\<open>AttributeError\<close>. \<^verbatim>\<open>W\<close> and \<^verbatim>\<open>H\<close> do not exist either
  until the first \<^verbatim>\<open>setPixmap\<close>; they are read only by \<^verbatim>\<open>writeResults\<close>, behind its guard on
  the file-name label, and \<^verbatim>\<open>setNextImage\<close> sets that label and calls \<^verbatim>\<open>setPixmap\<close> in the same
  run (an exception in between ends the run), so the record gives them the placeholder 0.
\<close>

definition init_app :: "string list \<Rightarrow> int \<Rightarrow> app" where
  "init_app key_cfg height =
     \<lparr>results = [], last_idx = 0, drawing = False, lastPoint = (0, 0),
      key_config = key_cfg, screen_height = height, W = 0, H = 0,
      fileName = ''Ready'', autoLabel = ''Manual Label'',
      savePathLabel = ''Save Path not selected'', crop_mode = False,
      save_directory = None, currentImg = ''start.png'', imgList = None, total_imgs = None,
      progress = ''                 '',
      files = Map.empty, dirs = {}, crops = Map.empty, popups = []\<rparr>"

section \<open>ImageWidget: the box store\<close>

definition showPopupOk :: "string \<Rightarrow> string \<Rightarrow> app \<Rightarrow> app" where
  "showPopupOk title content st = st\<lparr>popups := popups st @ [(title, content)]\<rparr>"

text \<open>The right-click loop of \<^verbatim>\<open>mousePressEvent\<close>: the first box, in insertion order,
  that contains the point is popped. Unpacking \<^verbatim>\<open>box[:4]\<close> into four names raises
  \<^verbatim>\<open>ValueError\<close> on a box with fewer than four fields.\<close>

fun remove_clicked :: "int \<Rightarrow> int \<Rightarrow> box list \<Rightarrow> error + box list" where
  "remove_clicked x y [] = Inr []"
| "remove_clicked x y (box # rest) =
     (case take 4 box of
        [lx, ly, rx, ry] \<Rightarrow>
          if lx \<le> x \<and> x \<le> rx \<and> ly \<le> y \<and> y \<le> ry then Inr rest
          else (case remove_clicked x y rest of
                  Inl e \<Rightarrow> Inl e
                | Inr rest' \<Rightarrow> Inr (box # rest'))
      | _ \<Rightarrow> Inl ValueError)"

definition mousePressEvent :: "button \<Rightarrow> int \<times> int \<Rightarrow> app \<Rightarrow> error + app" where
  "mousePressEvent b pos st =
     (if b = LeftButton then Inr (st\<lparr>drawing := True, lastPoint := pos\<rparr>)
      else if b = RightButton then
        (case remove_clicked (fst pos) (snd pos) (results st) of
           Inl e \<Rightarrow> Inl e
         | Inr rs \<Rightarrow> Inr (st\<lparr>results := rs\<rparr>))
      else Inr st)"

text \<open>The back-fill loop of \<^verbatim>\<open>mouseReleaseEvent\<close> (auto-label branch): every box with
  four fields gets the label appended.\<close>

definition fill_empty_labels :: "int \<Rightarrow> box list \<Rightarrow> box list" where
  "fill_empty_labels idx rs = map (\<lambda>result. if length result = 4 then result @ [idx] else result) rs"

definition mouseReleaseEvent :: "button \<Rightarrow> int \<times> int \<Rightarrow> app \<Rightarrow> app" where
  "mouseReleaseEvent b pos st =
     (if b = LeftButton then
        (let p1_x = fst (lastPoint st); p1_y = snd (lastPoint st);
             p2_x = fst pos; p2_y = snd pos;
             lx = min p1_x p2_x; ly = min p1_y p2_y;
             w = \<bar>p1_x - p2_x\<bar>; h = \<bar>p1_y - p2_y\<bar>
         in if (p1_x, p1_y) \<noteq> (p2_x, p2_y) then
              (if results st \<noteq> [] \<and> length (last (results st)) = 4
                    \<and> autoLabel st = ''Manual Label''
               then (showPopupOk ''warning messege'' ''Please mark the box you drew.'' st)
                      \<lparr>drawing := False\<rparr>
               else if autoLabel st = ''Auto Label''
               then st\<lparr>results := fill_empty_labels (last_idx st)
                                    (results st @ [[lx, ly, lx + w, ly + h, last_idx st]]),
                       drawing := False\<rparr>
               else st\<lparr>results := results st @ [[lx, ly, lx + w, ly + h]],
                       drawing := False\<rparr>)
            else st)
      else st)"

definition cancelLast :: "app \<Rightarrow> app" where
  "cancelLast st = (if results st \<noteq> [] then st\<lparr>results := butlast (results st)\<rparr> else st)"

definition getRatio :: "app \<Rightarrow> int \<times> int" where
  "getRatio st = (W st, H st)"

definition getResult :: "app \<Rightarrow> box list" where
  "getResult st = results st"

definition resetResult :: "app \<Rightarrow> app" where
  "resetResult st = st\<lparr>results := []\<rparr>"

definition markBox :: "int \<Rightarrow> app \<Rightarrow> error + app" where
  "markBox idx st =
     (let st1 = st\<lparr>last_idx := idx\<rparr> in
      if results st1 \<noteq> [] then
        (let b = last (results st1) in
         if length b = 4 then Inr (st1\<lparr>results := butlast (results st1) @ [b @ [idx]]\<rparr>)
         else if length b = 5 then Inr (st1\<lparr>results := butlast (results st1) @ [b[4 := idx]]\<rparr>)
         else Inl ValueError)
      else Inr st1)"

section \<open>Floating-point arithmetic and Python built-ins\<close>

text \<open>
  Python's \<^verbatim>\<open>float\<close> is an IEEE-754 double. Every floating-point operation returns the
  exact real result rounded to the nearest double, so the model writes an operation as
  \<open>RN (a + b)\<close>, \<open>RN (a / b)\<close>, ... for a rounding function \<open>RN\<close> that the functions
  below take as a parameter (an \<^verbatim>\<open>int\<close> operand is converted first: \<open>RN (of_int n)\<close>).
  \<open>float_rounding RN\<close> lists what the theorems use of the rounding function: it is
  monotone, it leaves integers up to \<open>2^53\<close> alone, and in the range of the doubles its
  error is at most the relative half-unit \<open>2^-53\<close> plus the subnormal half-step
  \<open>2^-1075\<close>. Round-to-nearest of IEEE-754 binary64 has these properties, and so has
  exact arithmetic (\<open>RN = (\<lambda>x. x)\<close>).
\<close>

definition float_rounding :: "(real \<Rightarrow> real) \<Rightarrow> bool" where
  "float_rounding RN \<longleftrightarrow>
     mono RN
     \<and> (\<forall>n::int. \<bar>n\<bar> \<le> 2 ^ 53 \<longrightarrow> RN (of_int n) = of_int n)
     \<and> (\<forall>x. \<bar>x\<bar> \<le> 2 ^ 1023 \<longrightarrow> \<bar>RN x - x\<bar> \<le> \<bar>x\<bar> / 2 ^ 53 + 1 / 2 ^ 1075)"

text \<open>Python 3's \<^verbatim>\<open>round(x)\<close> on a float: the nearest integer, a tie going to the even
  one.\<close>

definition py_round :: "real \<Rightarrow> int" where
  "py_round x =
     (let f = \<lfloor>x\<rfloor>; d = x - of_int f
      in if d < 1 / 2 then f
         else if 1 / 2 < d then f + 1
         else if even f then f else f + 1)"

text \<open>\<^verbatim>\<open>xs[i]\<close> with Python's negative indices.\<close>

definition py_index :: "'a list \<Rightarrow> int \<Rightarrow> error + 'a" where
  "py_index xs i =
     (if 0 \<le> i \<and> i < int (length xs) then Inr (xs ! nat i)
      else if i < 0 \<and> - int (length xs) \<le> i then Inr (xs ! nat (int (length xs) + i))
      else Inl IndexError)"

text \<open>\<^verbatim>\<open>str(i)\<close> for the box ordinal of a crop's file name.\<close>

fun str_nat :: "nat \<Rightarrow> string" where
  "str_nat n =
     (if n < 10 then [''0123456789'' ! n]
      else str_nat (n div 10) @ [''0123456789'' ! (n mod 10)])"

declare str_nat.simps [simp del]

definition str_int :: "int \<Rightarrow> string" where
  "str_int i = (if i < 0 then ''-'' @ str_nat (nat (- i)) else str_nat (nat i))"

text \<open>\<^verbatim>\<open>path[:-4]\<close>, \<^verbatim>\<open>os.path.basename\<close> and \<^verbatim>\<open>os.path.join\<close> (POSIX).\<close>

definition drop_ext :: "string \<Rightarrow> string" where
  "drop_ext path = take (length path - 4) path"

definition basename :: "string \<Rightarrow> string" where
  "basename path = rev (takeWhile (\<lambda>c. c \<noteq> CHR ''/'') (rev path))"

definition path_join :: "string \<Rightarrow> string \<Rightarrow> string" where
  "path_join a b =
     (if b \<noteq> [] \<and> hd b = CHR ''/'' then b
      else if a = [] \<or> last a = CHR ''/'' then a @ b
      else a @ ''/'' @ b)"

section \<open>The platform\<close>

text \<open>
  What the code asks of the operating system, Qt and OpenCV. \<open>scandir\<close> is the list of
  names in a directory, in the order the system gives them (\<open>None\<close> when the path is not
  a directory that can be listed), and \<open>isfile\<close> is \<^verbatim>\<open>os.path.isfile\<close>. \<open>pixmap_size\<close> is the
  size of the pixmap Qt loads from a file (a null pixmap is \<open>(0, 0)\<close>). \<open>imread\<close> is the
  shape \<open>(oh, ow)\<close> of what \<^verbatim>\<open>cv2.imread\<close> returns, \<open>fromfile\<close> says whether
  \<^verbatim>\<open>np.fromfile\<close> can read the file, and \<open>imdecode\<close> is the shape of what \<^verbatim>\<open>cv2.imdecode\<close>
  makes of its bytes (\<open>None\<close> for the \<^verbatim>\<open>None\<close> that OpenCV returns).

  Of the file system the state tracks the label files (each a list of written lines),
  the directories the program creates or finds, and the crops it saves (the rectangle
  handed to the slice \<^verbatim>\<open>img[y:y+h, x:x+w]\<close>; the pixels are not modelled). The EXIF
  rotation of \<^verbatim>\<open>setNextImage\<close> rewrites the image by 180 degrees inside a
  \<^verbatim>\<open>try/except: pass\<close> and changes none of this.
\<close>

record platform =
  scandir :: "string \<Rightarrow> string list option"
  isfile :: "string \<Rightarrow> bool"
  glob_magic :: "string \<Rightarrow> string list"
  pixmap_size :: "string \<Rightarrow> int \<times> int"
  imread :: "string \<Rightarrow> (int \<times> int) option"
  fromfile :: "string \<Rightarrow> bool"
  imdecode :: "string \<Rightarrow> (int \<times> int) option"

text \<open>
  Python's \<^verbatim>\<open>glob.glob(directory + '/' + '*' + ext)\<close>, for a directory path that does not
  end in a slash (\<^verbatim>\<open>registerInputPath\<close> returns before the call otherwise). The pattern
  is split at its last slash. A directory part with one of the characters \<^verbatim>\<open>*\<close>, \<^verbatim>\<open>?\<close>,
  \<^verbatim>\<open>[\<close> is itself expanded as a pattern: the model leaves that answer to the platform
  (\<open>glob_magic\<close>, on the whole pattern). Otherwise the names of the directory are
  listed, the names that start with a dot are dropped because the pattern does not,
  the names that match \<^verbatim>\<open>*ext\<close> (that end in \<open>ext\<close>) are kept, files and directories
  alike, and each is joined to the directory. A directory that cannot be listed gives
  the empty list.
\<close>

definition has_magic :: "string \<Rightarrow> bool" where
  "has_magic s \<longleftrightarrow> list_ex (\<lambda>c. c = CHR ''*'' \<or> c = CHR ''?'' \<or> c = CHR ''['') s"

definition ishidden :: "string \<Rightarrow> bool" where
  "ishidden name \<longleftrightarrow> name \<noteq> [] \<and> hd name = CHR ''.''"

definition ends_with :: "string \<Rightarrow> string \<Rightarrow> bool" where
  "ends_with ext name \<longleftrightarrow>
     length ext \<le> length name \<and> drop (length name - length ext) name = ext"

definition glob :: "platform \<Rightarrow> string \<Rightarrow> string \<Rightarrow> string list" where
  "glob P directory ext =
     (if has_magic directory then glob_magic P (directory @ ''/'' @ ''*'' @ ext)
      else
        (case scandir P directory of
           None \<Rightarrow> []
         | Some names \<Rightarrow>
             map (path_join directory)
               (filter (\<lambda>name. \<not> ishidden name \<and> ends_with ext name) names)))"

definition path_exists :: "app \<Rightarrow> string \<Rightarrow> bool" where
  "path_exists st p \<longleftrightarrow> files st p \<noteq> None \<or> p \<in> dirs st"

text \<open>\<^verbatim>\<open>open(p, 'a').close()\<close> and \<^verbatim>\<open>open(p, 'a').write(line)\<close>.\<close>

definition touch :: "string \<Rightarrow> app \<Rightarrow> app" where
  "touch p st = st\<lparr>files := (case files st p of None \<Rightarrow> (files st)(p \<mapsto> []) | Some ls \<Rightarrow> files st)\<rparr>"

definition append_line :: "string \<Rightarrow> yolo_line \<Rightarrow> app \<Rightarrow> app" where
  "append_line p l st =
     st\<lparr>files := (files st)(p \<mapsto> (case files st p of None \<Rightarrow> [] | Some ls \<Rightarrow> ls) @ [l])\<rparr>"

section \<open>ImageWidget.setPixmap: the display geometry\<close>

definition setPixmap :: "(real \<Rightarrow> real) \<Rightarrow> platform \<Rightarrow> string \<Rightarrow> app \<Rightarrow> app" where
  "setPixmap RN P image_fn st =
     (let w0 = fst (pixmap_size P image_fn); h0 = snd (pixmap_size P image_fn);
          limit = RN (RN (of_int (screen_height st)) * RN (8 / 10))
      in if of_int h0 > limit then
           (let resize_ratio = RN (limit / RN (of_int h0))
            in st\<lparr>W := py_round (RN (RN (of_int w0) * resize_ratio)),
                  H := py_round (RN (RN (of_int h0) * resize_ratio))\<rparr>)
         else st\<lparr>W := w0, H := h0\<rparr>)"

section \<open>MainWidget.writeResults: label lines and crops\<close>

text \<open>The list \<^verbatim>\<open>yolo_format\<close> of one box against the display size, and the pixel
  rectangle computed back from it against the size \<open>(ow, oh)\<close> of the decoded image. A
  division by a zero width or height raises \<^verbatim>\<open>ZeroDivisionError\<close>.\<close>

definition yolo_format ::
  "(real \<Rightarrow> real) \<Rightarrow> int \<Rightarrow> int \<Rightarrow> int \<Rightarrow> int \<Rightarrow> int \<Rightarrow> int \<Rightarrow> int \<Rightarrow> error + yolo_line" where
  "yolo_format RN lx ly rx ry idx w h =
     (if w = 0 \<or> h = 0 then Inl ZeroDivisionError
      else Inr (idx,
                RN (RN (of_int (lx + rx) / 2) / RN (of_int w)),
                RN (RN (of_int (ly + ry) / 2) / RN (of_int h)),
                RN (of_int (rx - lx) / of_int w),
                RN (of_int (ry - ly) / of_int h)))"

definition abs_pixel_coords :: "(real \<Rightarrow> real) \<Rightarrow> yolo_line \<Rightarrow> int \<Rightarrow> int \<Rightarrow> crop_rect" where
  "abs_pixel_coords RN yolo ow oh =
     (case yolo of (idx, ncx, ncy, nw, nh) \<Rightarrow>
        (let w = py_round (RN (nw * RN (of_int ow)));
             h = py_round (RN (nh * RN (of_int oh)));
             x = py_round (RN (RN (ncx * RN (of_int ow)) - RN (of_int w / 2)));
             y = py_round (RN (RN (ncy * RN (of_int oh)) - RN (of_int h / 2)))
         in (x, y, w, h)))"

text \<open>Crop mode, for one box. The image is read again from its file:
  \<^verbatim>\<open>np.fromfile\<close> raises \<^verbatim>\<open>FileNotFoundError\<close> on a file it cannot open, and \<^verbatim>\<open>img.shape\<close>
  raises \<^verbatim>\<open>AttributeError\<close> when OpenCV has decoded nothing. \<open>slice_len\<close> is the length of
  \<^verbatim>\<open>a[start:stop]\<close> on an axis of length \<open>n\<close> (a negative bound counts from the end, and
  both are clipped). \<^verbatim>\<open>cv2.cvtColor\<close> raises \<^verbatim>\<open>cv2.error\<close> on an empty crop, after the file
  name has been formatted and before the crop is saved.\<close>

definition read_image :: "platform \<Rightarrow> string \<Rightarrow> error + (int \<times> int)" where
  "read_image P path =
     (case imread P path of
        Some shape \<Rightarrow> Inr shape
      | None \<Rightarrow>
          if \<not> fromfile P path then Inl FileNotFoundError
          else (case imdecode P path of
                  Some shape \<Rightarrow> Inr shape
                | None \<Rightarrow> Inl AttributeError))"

definition slice_len :: "int \<Rightarrow> int \<Rightarrow> int \<Rightarrow> int" where
  "slice_len n start stop =
     (let lo = (if start < 0 then max 0 (start + n) else min start n);
          hi = (if stop < 0 then max 0 (stop + n) else min stop n)
      in max 0 (hi - lo))"

definition save_crop :: "(real \<Rightarrow> real) \<Rightarrow> platform \<Rightarrow> nat \<Rightarrow> yolo_line \<Rightarrow> app \<Rightarrow> error + app" where
  "save_crop RN P i yolo st =
     (case read_image P (currentImg st) of
        Inl e \<Rightarrow> Inl e
      | Inr (oh, ow) \<Rightarrow>
          (case abs_pixel_coords RN yolo ow oh of
             (x, y, w, h) \<Rightarrow>
               (case py_index (key_config st) (fst yolo) of
                  Inl e \<Rightarrow> Inl e
                | Inr name \<Rightarrow>
                    (let filename = drop_ext (basename (currentImg st))
                                      @ ''-'' @ name @ ''-'' @ str_nat i @ ''.jpg''
                     in if slice_len oh y (y + h) = 0 \<or> slice_len ow x (x + w) = 0
                        then Inl Cv2Error
                        else
                          (case save_directory st of
                             None \<Rightarrow> Inl TypeError
                           | Some d \<Rightarrow>
                               Inr (st\<lparr>crops := (crops st)(path_join d filename
                                                    \<mapsto> (x, y, w, h))\<rparr>))))))"

text \<open>The loop over \<^verbatim>\<open>enumerate(res)\<close>. Unpacking a box into five names raises
  \<^verbatim>\<open>ValueError\<close> unless it has exactly five fields.\<close>

fun write_boxes ::
  "(real \<Rightarrow> real) \<Rightarrow> platform \<Rightarrow> int \<Rightarrow> int \<Rightarrow> nat \<Rightarrow> box list \<Rightarrow> app \<Rightarrow> error + app" where
  "write_boxes RN P w h i [] st = Inr st"
| "write_boxes RN P w h i (elements # rest) st =
     (case elements of
        [lx, ly, rx, ry, idx] \<Rightarrow>
          (case yolo_format RN lx ly rx ry idx w h of
             Inl e \<Rightarrow> Inl e
           | Inr yolo \<Rightarrow>
               (let st1 = append_line (drop_ext (currentImg st) @ ''.txt'') yolo st
                in if crop_mode st1 then
                     (case save_crop RN P i yolo st1 of
                        Inl e \<Rightarrow> Inl e
                      | Inr st2 \<Rightarrow> write_boxes RN P w h (Suc i) rest st2)
                   else write_boxes RN P w h (Suc i) rest st1))
      | _ \<Rightarrow> Inl ValueError)"

definition writeResults :: "(real \<Rightarrow> real) \<Rightarrow> platform \<Rightarrow> box list \<Rightarrow> app \<Rightarrow> error + app" where
  "writeResults RN P res st =
     (if fileName st \<noteq> ''Ready'' then
        write_boxes RN P (fst (getRatio st)) (snd (getRatio st)) 0 res
          (if res = [] then touch (drop_ext (currentImg st) @ ''.txt'') st else st)
      else Inr st)"

section \<open>MainWidget: session and queue\<close>

text \<open>\<^verbatim>\<open>setNextImage(img)\<close>: \<open>img\<close> is \<open>None\<close> for the key and the button (whose
  \<^verbatim>\<open>checked = False\<close> argument is falsy as well). The result pairs the returned value
  (\<^verbatim>\<open>'Not Marked'\<close> or \<^verbatim>\<open>None\<close>) with the new state.

  \<open>ensure_results_dir\<close> is its first statement, the \<^verbatim>\<open>os.makedirs\<close> of the default crop
  directory; \<^verbatim>\<open>os.makedirs(None)\<close> raises \<^verbatim>\<open>TypeError\<close>. \<open>pop_next\<close> is the
  \<^verbatim>\<open>try: self.currentImg = self.imgList.pop(0)\<close> with its \<^verbatim>\<open>except Exception\<close>, which catches
  the \<^verbatim>\<open>IndexError\<close> of an empty queue and the \<^verbatim>\<open>AttributeError\<close> of a missing one.
  \<open>load_current\<close> is the tail of the function: the file-name label, the progress
  label (which reads \<^verbatim>\<open>total_imgs\<close> and \<^verbatim>\<open>imgList\<close> outside any \<^verbatim>\<open>try\<close>) and \<^verbatim>\<open>setPixmap\<close>.
\<close>

definition ensure_results_dir :: "app \<Rightarrow> error + app" where
  "ensure_results_dir st =
     (if savePathLabel st = ''Results'' \<and> crop_mode st then
        (case save_directory st of
           None \<Rightarrow> Inl TypeError
         | Some d \<Rightarrow> Inr (st\<lparr>dirs := insert d (dirs st)\<rparr>))
      else Inr st)"

definition pop_next :: "app \<Rightarrow> app" where
  "pop_next st =
     (case imgList st of
        Some (p # ps) \<Rightarrow> st\<lparr>currentImg := p, imgList := Some ps\<rparr>
      | _ \<Rightarrow> st\<lparr>currentImg := ''end.png''\<rparr>)"

definition load_current :: "(real \<Rightarrow> real) \<Rightarrow> platform \<Rightarrow> app \<Rightarrow> error + app" where
  "load_current RN P st =
     (let st1 = st\<lparr>fileName := basename (currentImg st)\<rparr>
      in case total_imgs st1 of
           None \<Rightarrow> Inl AttributeError
         | Some n \<Rightarrow>
             (case imgList st1 of
                None \<Rightarrow> Inl AttributeError
              | Some queue \<Rightarrow>
                  Inr (setPixmap RN P (currentImg st1)
                         (st1\<lparr>progress := str_int (int n - int (length queue))
                                             @ ''/'' @ str_nat n\<rparr>))))"

definition setNextImage ::
  "(real \<Rightarrow> real) \<Rightarrow> platform \<Rightarrow> string option \<Rightarrow> app \<Rightarrow> error + (string option \<times> app)" where
  "setNextImage RN P img st =
     (case ensure_results_dir st of
        Inl e \<Rightarrow> Inl e
      | Inr st1 \<Rightarrow>
          if img = None \<or> img = Some [] then
            (let res = getResult st1
             in if res \<noteq> [] \<and> length (last res) \<noteq> 5 then
                  Inr (Some ''Not Marked'',
                       showPopupOk ''warning messege'' ''please mark the box you drew.'' st1)
                else
                  (case writeResults RN P res st1 of
                     Inl e \<Rightarrow> Inl e
                   | Inr st2 \<Rightarrow>
                       (case load_current RN P (pop_next (resetResult st2)) of
                          Inl e \<Rightarrow> Inl e
                        | Inr st3 \<Rightarrow> Inr (None, st3))))
          else
            (case load_current RN P (resetResult st1) of
               Inl e \<Rightarrow> Inl e
             | Inr st3 \<Rightarrow> Inr (None, st3)))"

definition registerSavePath :: "string \<Rightarrow> app \<Rightarrow> app" where
  "registerSavePath chosen st =
     (if basename chosen \<noteq> [] then
        st\<lparr>save_directory := Some chosen, savePathLabel := basename chosen @ ''/''\<rparr>
      else st\<lparr>save_directory := None\<rparr>)"

text \<open>\<^verbatim>\<open>list.remove(skip)\<close> for every element of \<^verbatim>\<open>to_skip\<close>: the first occurrence goes,
  and \<^verbatim>\<open>ValueError\<close> is raised when there is none.\<close>

fun remove_skipped :: "string list \<Rightarrow> string list \<Rightarrow> error + string list" where
  "remove_skipped [] imgs = Inr imgs"
| "remove_skipped (skip # to_skip) imgs =
     (if skip \<in> set imgs then remove_skipped to_skip (remove1 skip imgs) else Inl ValueError)"

definition registerInputPath :: "platform \<Rightarrow> string \<Rightarrow> app \<Rightarrow> error + app" where
  "registerInputPath P directory st =
     (if basename directory = [] then Inr st
      else
        (let imgs = glob P directory ''.jpg'' @ glob P directory ''.png'';
             to_skip = filter (\<lambda>imgPath. path_exists st (drop_ext imgPath @ ''.txt'')) imgs
         in case remove_skipped to_skip imgs of
              Inl e \<Rightarrow> Inl e
            | Inr remaining \<Rightarrow>
                (let st1 = st\<lparr>imgList := Some remaining, total_imgs := Some (length imgs)\<rparr>
                 in if save_directory st1 = None \<or> savePathLabel st1 = ''Results'' then
                      Inr (st1\<lparr>savePathLabel := ''Results'',
                               save_directory := Some (path_join directory ''Results'')\<rparr>)
                    else Inr st1)))"

definition cropMode :: "bool \<Rightarrow> app \<Rightarrow> app" where
  "cropMode checked st = st\<lparr>crop_mode := checked\<rparr>"

text \<open>\<^verbatim>\<open>keyPressEvent\<close>, on Qt's key codes: \<open>49 .. 57\<close> are the digits 1 to 9,
  \<^verbatim>\<open>Key_Escape = 0x01000000\<close>, \<^verbatim>\<open>Key_E = 0x45\<close>, \<^verbatim>\<open>Key_Q = 0x51\<close>, \<^verbatim>\<open>Key_A = 0x41\<close>.\<close>

definition keyPressEvent :: "(real \<Rightarrow> real) \<Rightarrow> platform \<Rightarrow> int \<Rightarrow> app \<Rightarrow> error + app" where
  "keyPressEvent RN P key st =
     (case (if 49 \<le> key \<and> key \<le> 57 \<and> int (length (key_config st)) \<ge> key - 48
            then markBox (key - 49) st else Inr st) of
        Inl e \<Rightarrow> Inl e
      | Inr st1 \<Rightarrow>
          if key = 16777216 then Inr (cancelLast st1)
          else if key = 69 then
            (case setNextImage RN P None st1 of Inl e \<Rightarrow> Inl e | Inr (r, st2) \<Rightarrow> Inr st2)
          else if key = 81 then Inr (resetResult st1)
          else if key = 65 then
            (if autoLabel st1 = ''Auto Label'' then Inr (st1\<lparr>autoLabel := ''Manual Label''\<rparr>)
             else Inr (st1\<lparr>autoLabel := ''Auto Label''\<rparr>))
          else Inr st1)"

section \<open>The display scale in the specification's words\<close>

text \<open>The specification computes the display geometry from
  \<open>scale = min(1, 0.8 \<sqdot> screenHeight / originalHeight)\<close>. This is that formula, in the
  same floating-point arithmetic as the code; \<open>setPixmap\<close> above is compared with it.\<close>

definition spec_scale :: "(real \<Rightarrow> real) \<Rightarrow> int \<Rightarrow> int \<Rightarrow> real" where
  "spec_scale RN screenHeight originalHeight =
     min 1 (RN (RN (RN (8 / 10) * RN (of_int screenHeight)) / RN (of_int originalHeight)))"

section \<open>The eligible images in the specification's words\<close>

text \<open>The specification counts "all files with extension \<^verbatim>\<open>.jpg\<close> or \<^verbatim>\<open>.png\<close> directly in the
  directory". These are their names, in the order of the listing; \<open>registerInputPath\<close>
  above is compared with them.\<close>

definition spec_images :: "platform \<Rightarrow> string \<Rightarrow> string list" where
  "spec_images P directory =
     (case scandir P directory of
        None \<Rightarrow> []
      | Some names \<Rightarrow>
          filter (\<lambda>name. isfile P (path_join directory name)
                         \<and> (ends_with ''.jpg'' name \<or> ends_with ''.png'' name)) names)"

text \<open>Those of them that \<^verbatim>\<open>glob\<close> lists: the names that do not start with a dot.\<close>

definition visible_images :: "platform \<Rightarrow> string \<Rightarrow> string list" where
  "visible_images P directory = filter (\<lambda>name. \<not> ishidden name) (spec_images P directory)"

section \<open>Invariants of the box store and example states\<close>

text \<open>A box is corner-normalised when it has its four coordinates and the first corner
  is the upper left one.\<close>

fun normalized :: "box \<Rightarrow> bool" where
  "normalized (lx # ly # rx # ry # rest) = (lx \<le> rx \<and> ly \<le> ry)"
| "normalized _ = False"

text \<open>Every box before the last has five fields (is labelled); the last one has four
  or five.\<close>

definition at_most_last_unlabeled :: "box list \<Rightarrow> bool" where
  "at_most_last_unlabeled rs \<longleftrightarrow>
     list_all (\<lambda>b. length b = 5) (butlast rs)
     \<and> (rs = [] \<or> length (last rs) = 4 \<or> length (last rs) = 5)"

text \<open>A state for concrete runs: two labels, a labelled box and a pending one, and the
  left button pressed at \<open>(10, 10)\<close>.\<close>

definition example_app :: app where
  "example_app = (init_app [''cat'', ''dog''] 1000)
     \<lparr>results := [[1, 2, 3, 4, 0], [5, 6, 7, 8]], lastPoint := (10, 10), last_idx := 1\<rparr>"

text \<open>A directory with five images, two of them with a label file already, on a
  screen of height 1000; and the state in which the first image without a label file,
  of size \<open>640 \<times> 480\<close>, is on display with crop mode switched on.\<close>

definition example_platform :: platform where
  "example_platform =
     \<lparr>scandir = (\<lambda>d. if d = ''/data/imgs''
                      then Some [''a.jpg'', ''a.txt'', ''b.jpg'', ''c.jpg'',
                                 ''d.png'', ''d.txt'', ''e.png'']
                      else None),
      isfile = (\<lambda>p. True),
      glob_magic = (\<lambda>pattern. []),
      pixmap_size = (\<lambda>fn. if fn = ''/data/imgs/e.png'' then (1000, 2000) else (640, 480)),
      imread = (\<lambda>fn. if fn = ''/data/imgs/e.png'' then Some (2000, 1000)
                      else Some (480, 640)),
      fromfile = (\<lambda>fn. True),
      imdecode = (\<lambda>fn. None)\<rparr>"

definition example_scanned :: app where
  "example_scanned = (init_app [''cat'', ''dog''] 1000)
     \<lparr>files := [''/data/imgs/a.txt'' \<mapsto> [], ''/data/imgs/d.txt'' \<mapsto> []]\<rparr>"

definition example_session :: app where
  "example_session = (init_app [''cat'', ''dog''] 1000)
     \<lparr>files := [''/data/imgs/a.txt'' \<mapsto> [], ''/data/imgs/d.txt'' \<mapsto> []],
      W := 640, H := 480, fileName := ''b.jpg'', currentImg := ''/data/imgs/b.jpg'',
      imgList := Some [''/data/imgs/c.jpg'', ''/data/imgs/e.png''], total_imgs := Some 5,
      progress := ''3/5'',
      crop_mode := True, savePathLabel := ''Results'',
      save_directory := Some ''/data/imgs/Results''\<rparr>"

text \<open>Three directories that are not plain image folders: \<^verbatim>\<open>/data/imgs\<close> with a hidden
  image beside a visible one, \<^verbatim>\<open>/data/sub\<close> with nothing but a subdirectory named
  \<^verbatim>\<open>dir.png\<close>, and the root directory with one image.\<close>

definition example_odd_platform :: platform where
  "example_odd_platform =
     example_platform
       \<lparr>scandir := (\<lambda>d. if d = ''/data/imgs'' then Some [''.thumb.jpg'', ''a.jpg'']
                         else if d = ''/data/sub'' then Some [''dir.png'']
                         else if d = ''/'' then Some [''r.jpg'']
                         else None),
        isfile := (\<lambda>p. p \<noteq> ''/data/sub/dir.png'')\<rparr>"

text \<open>A session in which \<^verbatim>\<open>a.jpg\<close> and \<^verbatim>\<open>a.png\<close> share the label file \<^verbatim>\<open>a.txt\<close>: \<^verbatim>\<open>a.jpg\<close>
  has been committed with one box, and \<^verbatim>\<open>a.png\<close> is on display.\<close>

definition example_shared_stem :: app where
  "example_shared_stem = (init_app [''cat'', ''dog''] 1000)
     \<lparr>files := [''/data/imgs/a.txt'' \<mapsto> [(0, 1 / 2, 1 / 2, 1 / 5, 1 / 10)]],
      W := 640, H := 480, fileName := ''a.png'', currentImg := ''/data/imgs/a.png'',
      imgList := Some [], total_imgs := Some 2, progress := ''2/2''\<rparr>"

section \<open>Properties of the box store\<close>

lemma example_app_simps:
  "results example_app = [[1, 2, 3, 4, 0], [5, 6, 7, 8]]"
  "lastPoint example_app = (10, 10)"
  "last_idx example_app = 1"
  "autoLabel example_app = ''Manual Label''"
  "popups example_app = []"
  "key_config example_app = [''cat'', ''dog'']"
  by (simp_all add: example_app_def init_app_def)

lemma normalized_append: "normalized b \<Longrightarrow> normalized (b @ c)"
  by (cases b rule: normalized.cases) auto

lemma normalized_update4: "normalized b \<Longrightarrow> normalized (b[4 := v])"
proof (cases b rule: normalized.cases)
  case (1 lx ly rx ry rest)
  assume "normalized b"
  with 1 show ?thesis by (cases rest) auto
qed auto

lemma remove_clicked_subset:
  "remove_clicked x y rs = Inr rs' \<Longrightarrow> set rs' \<subseteq> set rs"
  by (induction rs arbitrary: rs') (auto split: list.splits if_splits sum.splits)

lemma release_normalized:
  "list_all normalized (results st) \<Longrightarrow> list_all normalized (results (mouseReleaseEvent b pos st))"
  by (auto simp: mouseReleaseEvent_def Let_def showPopupOk_def fill_empty_labels_def
        list_all_iff normalized_append)

lemma markBox_normalized:
  assumes "list_all normalized (results st)" and "markBox idx st = Inr st'"
  shows "list_all normalized (results st')"
proof -
  have butl: "\<And>b. b \<in> set (butlast (results st)) \<Longrightarrow> normalized b"
    using assms(1) by (auto simp: list_all_iff dest: in_set_butlastD)
  have lst: "results st \<noteq> [] \<Longrightarrow> normalized (last (results st))"
    using assms(1) by (auto simp: list_all_iff)
  show ?thesis
    using assms(2) butl lst
    by (auto simp: markBox_def Let_def list_all_iff normalized_append normalized_update4
          split: if_splits)
qed

lemma press_normalized:
  assumes "list_all normalized (results st)" and "mousePressEvent b pos st = Inr st'"
  shows "list_all normalized (results st')"
  using assms remove_clicked_subset
  by (fastforce simp: mousePressEvent_def list_all_iff split: if_splits sum.splits)

lemma cancel_normalized:
  "list_all normalized (results st) \<Longrightarrow> list_all normalized (results (cancelLast st))"
  by (auto simp: cancelLast_def list_all_iff dest: in_set_butlastD)

lemma new_box_form:
  assumes "lastPoint st \<noteq> pos"
    and "\<not> (results st \<noteq> [] \<and> length (last (results st)) = 4 \<and> autoLabel st = ''Manual Label'')"
  shows "length (results (mouseReleaseEvent LeftButton pos st)) = Suc (length (results st))
     \<and> take 4 (last (results (mouseReleaseEvent LeftButton pos st)))
        = [min (fst (lastPoint st)) (fst pos), min (snd (lastPoint st)) (snd pos),
           min (fst (lastPoint st)) (fst pos) + \<bar>fst (lastPoint st) - fst pos\<bar>,
           min (snd (lastPoint st)) (snd pos) + \<bar>snd (lastPoint st) - snd pos\<bar>]"
  using assms
  by (cases "lastPoint st"; cases pos)
     (auto simp: mouseReleaseEvent_def Let_def fill_empty_labels_def)


lemma length4_conv: "length (b::int list) = 4 \<longleftrightarrow> (\<exists>a1 a2 a3 a4. b = [a1, a2, a3, a4])"
  by (auto simp: numeral_eq_Suc length_Suc_conv)

lemma length5_conv: "length (b::int list) = 5 \<longleftrightarrow> (\<exists>a1 a2 a3 a4 a5. b = [a1, a2, a3, a4, a5])"
  by (auto simp: numeral_eq_Suc length_Suc_conv)

lemma at_most_last_unlabeled_Nil: "at_most_last_unlabeled []"
  by (simp add: at_most_last_unlabeled_def)

lemma at_most_last_unlabeled_Cons:
  "at_most_last_unlabeled (b # bs) \<longleftrightarrow>
     (if bs = [] then length b = 4 \<or> length b = 5 else length b = 5 \<and> at_most_last_unlabeled bs)"
  by (auto simp: at_most_last_unlabeled_def)

lemma remove_clicked_keeps:
  "at_most_last_unlabeled rs \<Longrightarrow>
     \<exists>rs'. remove_clicked x y rs = Inr rs' \<and> at_most_last_unlabeled rs'"
proof (induction rs)
  case Nil
  then show ?case by (simp add: at_most_last_unlabeled_Nil)
next
  case (Cons b bs)
  have len: "length b = 4 \<or> length b = 5"
    using Cons.prems by (auto simp: at_most_last_unlabeled_Cons split: if_splits)
  then obtain lx ly rx ry where tk: "take 4 b = [lx, ly, rx, ry]"
    by (auto simp: length4_conv length5_conv)
  show ?case
  proof (cases "lx \<le> x \<and> x \<le> rx \<and> ly \<le> y \<and> y \<le> ry")
    case True
    then have "remove_clicked x y (b # bs) = Inr bs" using tk by simp
    moreover have "at_most_last_unlabeled bs"
      using Cons.prems
      by (cases "bs = []") (auto simp: at_most_last_unlabeled_Cons at_most_last_unlabeled_Nil)
    ultimately show ?thesis by blast
  next
    case False
    show ?thesis
    proof (cases "bs = []")
      case True
      then show ?thesis using False tk len
        by (auto simp: at_most_last_unlabeled_Cons at_most_last_unlabeled_Nil)
    next
      case nonempty: False
      then have b5: "length b = 5" and "at_most_last_unlabeled bs"
        using Cons.prems by (auto simp: at_most_last_unlabeled_Cons)
      then obtain bs' where r: "remove_clicked x y bs = Inr bs'" and i: "at_most_last_unlabeled bs'"
        using Cons.IH by blast
      have "remove_clicked x y (b # bs) = Inr (b # bs')" using False tk r by auto
      moreover have "at_most_last_unlabeled (b # bs')"
        using b5 i by (simp add: at_most_last_unlabeled_Cons)
      ultimately show ?thesis by blast
    qed
  qed
qed

lemma at_most_last_unlabeled_snoc:
  "at_most_last_unlabeled (rs @ [b]) \<longleftrightarrow>
     list_all (\<lambda>b. length b = 5) rs \<and> (length b = 4 \<or> length b = 5)"
  by (simp add: at_most_last_unlabeled_def)

lemma all_labeled_if_last_labeled:
  assumes "at_most_last_unlabeled rs" and "rs = [] \<or> length (last rs) \<noteq> 4"
  shows "list_all (\<lambda>b. length b = 5) rs"
  using assms by (cases rs rule: rev_cases) (auto simp: at_most_last_unlabeled_def)

lemma fill_empty_labels_all_labeled:
  assumes "at_most_last_unlabeled rs"
  shows "list_all (\<lambda>b. length b = 5) (fill_empty_labels k rs)"
  using assms
  by (cases rs rule: rev_cases)
     (auto simp: at_most_last_unlabeled_def fill_empty_labels_def list_all_iff)

lemma fill_empty_labels_snoc:
  "fill_empty_labels k (rs @ [[a1, a2, a3, a4, k]]) = fill_empty_labels k rs @ [[a1, a2, a3, a4, k]]"
  by (simp add: fill_empty_labels_def)

lemma release_keeps:
  assumes inv: "at_most_last_unlabeled (results st)"
    and mode: "autoLabel st = ''Manual Label'' \<or> autoLabel st = ''Auto Label''"
  shows "at_most_last_unlabeled (results (mouseReleaseEvent b pos st))"
proof (cases "b = LeftButton \<and> lastPoint st \<noteq> pos")
  case False
  then show ?thesis using inv
    by (cases "lastPoint st"; cases pos) (auto simp: mouseReleaseEvent_def Let_def)
next
  case drawn: True
  then have ne: "(fst (lastPoint st), snd (lastPoint st)) \<noteq> (fst pos, snd pos)"
    by (cases "lastPoint st"; cases pos) auto
  show ?thesis
  proof (cases "results st \<noteq> [] \<and> length (last (results st)) = 4
                  \<and> autoLabel st = ''Manual Label''")
    case True
    then show ?thesis using inv drawn ne
      by (auto simp: mouseReleaseEvent_def Let_def showPopupOk_def prod_eq_iff)
  next
    case free: False
    show ?thesis
    proof (cases "autoLabel st = ''Auto Label''")
      case True
      then show ?thesis using drawn ne fill_empty_labels_all_labeled [OF inv]
        by (auto simp: mouseReleaseEvent_def Let_def fill_empty_labels_snoc
              at_most_last_unlabeled_snoc prod_eq_iff)
    next
      case False
      then have "autoLabel st = ''Manual Label''" using mode by blast
      then have "results st = [] \<or> length (last (results st)) \<noteq> 4" using free by blast
      then have "list_all (\<lambda>b. length b = 5) (results st)"
        using all_labeled_if_last_labeled [OF inv] by blast
      then show ?thesis using False free drawn ne
        by (auto simp: mouseReleaseEvent_def Let_def at_most_last_unlabeled_snoc prod_eq_iff)
    qed
  qed
qed

lemma markBox_keeps:
  assumes "at_most_last_unlabeled (results st)"
  shows "\<exists>st'. markBox idx st = Inr st' \<and> at_most_last_unlabeled (results st')"
  using assms
  by (auto simp: markBox_def Let_def at_most_last_unlabeled_def)

lemma press_keeps:
  assumes "at_most_last_unlabeled (results st)"
  shows "\<exists>st'. mousePressEvent b pos st = Inr st' \<and> at_most_last_unlabeled (results st')"
proof -
  obtain rs' where "remove_clicked (fst pos) (snd pos) (results st) = Inr rs'"
    and "at_most_last_unlabeled rs'"
    using remove_clicked_keeps [OF assms] by blast
  then show ?thesis using assms by (simp add: mousePressEvent_def)
qed

lemma cancel_keeps:
  assumes "at_most_last_unlabeled (results st)"
  shows "at_most_last_unlabeled (results (cancelLast st))"
proof (cases "results st" rule: rev_cases)
  case Nil
  then show ?thesis using assms by (simp add: cancelLast_def)
next
  case (snoc ys y)
  then have "list_all (\<lambda>b. length b = 5) ys"
    using assms by (simp add: at_most_last_unlabeled_def)
  then have "at_most_last_unlabeled ys"
    by (cases ys rule: rev_cases) (auto simp: at_most_last_unlabeled_def)
  then show ?thesis using snoc by (simp add: cancelLast_def)
qed

section \<open>Claims about the box store\<close>

text \<open>
  C1. The claim: a rect of zero width or zero height is rejected on mouse release, and
  no degenerate box is ever stored. The comment above the guard of \<^verbatim>\<open>mouseReleaseEvent\<close>
  says so as well ("only process if the box is not a zero-area line"), yet the guard
  compares the two points only, so it rejects a rect that is degenerate in both
  directions and lets a vertical or horizontal line through. The run below presses the
  left button at \<open>(3, 4)\<close> and releases it at \<open>(3, 9)\<close> in the initial state: the box
  \<open>[3, 4, 3, 9]\<close> of width zero is stored.
\<close>

theorem zero_width_box_is_stored:
  "mousePressEvent LeftButton (3, 4) (init_app [''cat''] 1000)
     = Inr ((init_app [''cat''] 1000)\<lparr>drawing := True, lastPoint := (3, 4)\<rparr>)
   \<and> results (mouseReleaseEvent LeftButton (3, 9)
         ((init_app [''cat''] 1000)\<lparr>drawing := True, lastPoint := (3, 4)\<rparr>))
     = [[3, 4, 3, 9]]"
  by (simp add: mousePressEvent_def mouseReleaseEvent_def init_app_def Let_def)

text \<open>
  C10. Every stored box is corner-normalised, whatever the direction of the drag: a
  release that stores a box appends the box whose first four fields are
  \<open>min p1_x p2_x\<close>, \<open>min p1_y p2_y\<close>, \<open>min p1_x p2_x + \<bar>p1_x - p2_x\<bar>\<close> and
  \<open>min p1_y p2_y + \<bar>p1_y - p2_y\<bar>\<close>, and a mouse release, a mouse press (with its
  right-click removal), \<^verbatim>\<open>markBox\<close>, \<^verbatim>\<open>cancelLast\<close> and \<^verbatim>\<open>resetResult\<close> all keep
  \<open>lx \<le> rx\<close> and \<open>ly \<le> ry\<close> for every box of the store.
\<close>

theorem stored_boxes_corner_normalized:
  assumes "list_all normalized (results st)"
  shows "list_all normalized (results (mouseReleaseEvent b pos st))
     \<and> (\<forall>st'. mousePressEvent b pos st = Inr st' \<longrightarrow> list_all normalized (results st'))
     \<and> (\<forall>st'. markBox idx st = Inr st' \<longrightarrow> list_all normalized (results st'))
     \<and> list_all normalized (results (cancelLast st))
     \<and> list_all normalized (results (resetResult st))
     \<and> (lastPoint st \<noteq> pos
          \<and> \<not> (results st \<noteq> [] \<and> length (last (results st)) = 4
                 \<and> autoLabel st = ''Manual Label'') \<longrightarrow>
        length (results (mouseReleaseEvent LeftButton pos st)) = Suc (length (results st))
        \<and> take 4 (last (results (mouseReleaseEvent LeftButton pos st)))
           = [min (fst (lastPoint st)) (fst pos), min (snd (lastPoint st)) (snd pos),
              min (fst (lastPoint st)) (fst pos) + \<bar>fst (lastPoint st) - fst pos\<bar>,
              min (snd (lastPoint st)) (snd pos) + \<bar>snd (lastPoint st) - snd pos\<bar>])"
proof (intro conjI allI impI)
  show "list_all normalized (results (mouseReleaseEvent b pos st))"
    using assms by (rule release_normalized)
  show "list_all normalized (results st')" if "mousePressEvent b pos st = Inr st'" for st'
    using assms that by (rule press_normalized)
  show "list_all normalized (results st')" if "markBox idx st = Inr st'" for st'
    using assms that by (rule markBox_normalized)
  show "list_all normalized (results (cancelLast st))"
    using assms by (rule cancel_normalized)
  show "list_all normalized (results (resetResult st))"
    by (simp add: resetResult_def)
next
  assume h: "lastPoint st \<noteq> pos
     \<and> \<not> (results st \<noteq> [] \<and> length (last (results st)) = 4
            \<and> autoLabel st = ''Manual Label'')"
  from h have a: "lastPoint st \<noteq> pos" by (rule conjunct1)
  from h have b: "\<not> (results st \<noteq> [] \<and> length (last (results st)) = 4
            \<and> autoLabel st = ''Manual Label'')" by (rule conjunct2)
  note nb = new_box_form [OF a b]
  show "length (results (mouseReleaseEvent LeftButton pos st)) = Suc (length (results st))"
    using nb by (rule conjunct1)
  show "take 4 (last (results (mouseReleaseEvent LeftButton pos st)))
           = [min (fst (lastPoint st)) (fst pos), min (snd (lastPoint st)) (snd pos),
              min (fst (lastPoint st)) (fst pos) + \<bar>fst (lastPoint st) - fst pos\<bar>,
              min (snd (lastPoint st)) (snd pos) + \<bar>snd (lastPoint st) - snd pos\<bar>]"
    using nb by (rule conjunct2)
qed

text \<open>The drag from \<open>(10, 10)\<close> up and left to \<open>(4, 2)\<close> stores \<open>[4, 2, 10, 10]\<close>.\<close>

theorem stored_boxes_corner_normalized_witness:
  "list_all normalized (results (example_app\<lparr>results := [[1, 2, 3, 4, 0]]\<rparr>))
   \<and> results (mouseReleaseEvent LeftButton (4, 2) (example_app\<lparr>results := [[1, 2, 3, 4, 0]]\<rparr>))
       = [[1, 2, 3, 4, 0], [4, 2, 10, 10]]
   \<and> list_all normalized
        (results (mouseReleaseEvent LeftButton (4, 2) (example_app\<lparr>results := [[1, 2, 3, 4, 0]]\<rparr>)))
   \<and> markBox 1 (example_app\<lparr>results := [[1, 2, 3, 4, 0]]\<rparr>)
       = Inr (example_app\<lparr>results := [[1, 2, 3, 4, 1]]\<rparr>)
   \<and> mousePressEvent RightButton (4, 2) (example_app\<lparr>results := [[1, 2, 3, 4, 0]]\<rparr>)
       = Inr (example_app\<lparr>results := [[1, 2, 3, 4, 0]]\<rparr>)"
  using stored_boxes_corner_normalized
          [of "example_app\<lparr>results := [[1, 2, 3, 4, 0]]\<rparr>" LeftButton "(4, 2)" 1]
  by (simp add: example_app_simps mouseReleaseEvent_def markBox_def mousePressEvent_def
        Let_def example_app_def init_app_def)

text \<open>
  C2. In either labelling mode, a mouse release (finalize), \<^verbatim>\<open>markBox\<close> (labelLast), a
  mouse press (removeAt on the right button), \<^verbatim>\<open>cancelLast\<close> (removeLast) and
  \<^verbatim>\<open>resetResult\<close> (reset) keep the invariant that every box before the last has five
  fields and the last has four or five; \<^verbatim>\<open>markBox\<close> and the mouse press raise nothing on
  such a store. The mode label is "Manual Label" at the start and the handlers keep it
  one of the two (\<open>init_app_mode\<close>, \<open>keyPressEvent_keeps_mode\<close> and
  \<open>mouse_events_keep_mode\<close> below).
\<close>

theorem store_operations_keep_labeled_prefix:
  assumes "at_most_last_unlabeled (results st)"
    and "autoLabel st = ''Manual Label'' \<or> autoLabel st = ''Auto Label''"
  shows "at_most_last_unlabeled (results (mouseReleaseEvent b pos st))
     \<and> (\<exists>st'. markBox idx st = Inr st' \<and> at_most_last_unlabeled (results st'))
     \<and> (\<exists>st'. mousePressEvent b pos st = Inr st' \<and> at_most_last_unlabeled (results st'))
     \<and> at_most_last_unlabeled (results (cancelLast st))
     \<and> at_most_last_unlabeled (results (resetResult st))"
  using release_keeps [OF assms] markBox_keeps [OF assms(1)] press_keeps [OF assms(1)]
    cancel_keeps [OF assms(1)]
  by (simp add: resetResult_def at_most_last_unlabeled_Nil)

theorem store_operations_keep_labeled_prefix_witness:
  "at_most_last_unlabeled (results example_app)
   \<and> (autoLabel example_app = ''Manual Label'' \<or> autoLabel example_app = ''Auto Label'')
   \<and> results (mouseReleaseEvent LeftButton (4, 2) example_app) = results example_app
   \<and> at_most_last_unlabeled (results (mouseReleaseEvent LeftButton (4, 2) example_app))
   \<and> results (mouseReleaseEvent LeftButton (4, 2) (example_app\<lparr>autoLabel := ''Auto Label''\<rparr>))
       = [[1, 2, 3, 4, 0], [5, 6, 7, 8, 1], [4, 2, 10, 10, 1]]
   \<and> at_most_last_unlabeled
        (results (mouseReleaseEvent LeftButton (4, 2) (example_app\<lparr>autoLabel := ''Auto Label''\<rparr>)))
   \<and> markBox 0 example_app
       = Inr (example_app\<lparr>last_idx := 0, results := [[1, 2, 3, 4, 0], [5, 6, 7, 8, 0]]\<rparr>)
   \<and> mousePressEvent RightButton (2, 3) example_app
       = Inr (example_app\<lparr>results := [[5, 6, 7, 8]]\<rparr>)
   \<and> results (cancelLast example_app) = [[1, 2, 3, 4, 0]]"
  using store_operations_keep_labeled_prefix [of example_app LeftButton "(4, 2)" 0]
    store_operations_keep_labeled_prefix
      [of "example_app\<lparr>autoLabel := ''Auto Label''\<rparr>" LeftButton "(4, 2)" 0]
  by (simp add: example_app_simps mouseReleaseEvent_def markBox_def mousePressEvent_def
        cancelLast_def Let_def fill_empty_labels_def showPopupOk_def at_most_last_unlabeled_def
        example_app_def init_app_def)

text \<open>
  C3. In auto-label mode, releasing the button away from the point where it was pressed
  appends the new box with the label \<^verbatim>\<open>last_idx\<close> and appends \<^verbatim>\<open>last_idx\<close> to every box
  of the store that had four fields; the other boxes stay as they were, and no box with
  four fields is left.
\<close>

theorem auto_mode_backfill:
  assumes "autoLabel st = ''Auto Label''" and "lastPoint st \<noteq> pos"
  shows "results (mouseReleaseEvent LeftButton pos st)
           = map (\<lambda>b. if length b = 4 then b @ [last_idx st] else b) (results st)
             @ [[min (fst (lastPoint st)) (fst pos), min (snd (lastPoint st)) (snd pos),
                 min (fst (lastPoint st)) (fst pos) + \<bar>fst (lastPoint st) - fst pos\<bar>,
                 min (snd (lastPoint st)) (snd pos) + \<bar>snd (lastPoint st) - snd pos\<bar>,
                 last_idx st]]
     \<and> list_all (\<lambda>b. length b \<noteq> 4) (results (mouseReleaseEvent LeftButton pos st))"
  using assms
  by (cases "lastPoint st"; cases pos)
     (auto simp: mouseReleaseEvent_def Let_def fill_empty_labels_def list_all_iff)

theorem auto_mode_backfill_witness:
  "autoLabel (example_app\<lparr>autoLabel := ''Auto Label'', results := [[1, 2, 3, 4], [5, 6, 7, 8]]\<rparr>)
     = ''Auto Label''
   \<and> lastPoint (example_app\<lparr>autoLabel := ''Auto Label'', results := [[1, 2, 3, 4], [5, 6, 7, 8]]\<rparr>)
     \<noteq> (4, 2)
   \<and> results (mouseReleaseEvent LeftButton (4, 2)
        (example_app\<lparr>autoLabel := ''Auto Label'', results := [[1, 2, 3, 4], [5, 6, 7, 8]]\<rparr>))
     = [[1, 2, 3, 4, 1], [5, 6, 7, 8, 1], [4, 2, 10, 10, 1]]"
  using auto_mode_backfill
    [of "example_app\<lparr>autoLabel := ''Auto Label'', results := [[1, 2, 3, 4], [5, 6, 7, 8]]\<rparr>"
        "(4, 2)"]
  by (simp add: example_app_simps)

lemma pending_label_warning:
  assumes "results st \<noteq> []" and "length (last (results st)) = 4"
    and "autoLabel st = ''Manual Label''" and "lastPoint st \<noteq> pos"
  shows "mouseReleaseEvent LeftButton pos st
           = st\<lparr>popups := popups st @ [(''warning messege'', ''Please mark the box you drew.'')],
                drawing := False\<rparr>"
  using assms
  by (cases "lastPoint st"; cases pos)
     (auto simp: mouseReleaseEvent_def Let_def showPopupOk_def)

text \<open>
  C4. In manual mode, with a non-empty store whose last box has four fields, finalizing
  a rect of non-zero width and height shows the warning "Please mark the box you
  drew." and changes nothing else but the \<^verbatim>\<open>drawing\<close> flag: the store is the same list, of
  the same length, and the rect is dropped. (A rect of zero width or height falls under
  the earlier rule of the specification, the one of claim C1.)
\<close>

theorem manual_mode_pending_label_guard:
  assumes "results st \<noteq> []" and "length (last (results st)) = 4"
    and "autoLabel st = ''Manual Label''"
    and "fst (lastPoint st) \<noteq> fst pos" and "snd (lastPoint st) \<noteq> snd pos"
  shows "mouseReleaseEvent LeftButton pos st
           = st\<lparr>popups := popups st @ [(''warning messege'', ''Please mark the box you drew.'')],
                drawing := False\<rparr>
     \<and> results (mouseReleaseEvent LeftButton pos st) = results st
     \<and> length (results (mouseReleaseEvent LeftButton pos st)) = length (results st)"
proof -
  have "lastPoint st \<noteq> pos" using assms(4) by auto
  from pending_label_warning [OF assms(1-3) this] show ?thesis by simp
qed

theorem manual_mode_pending_label_guard_witness:
  "results example_app \<noteq> [] \<and> length (last (results example_app)) = 4
   \<and> autoLabel example_app = ''Manual Label''
   \<and> fst (lastPoint example_app) \<noteq> fst (4::int, 2::int)
   \<and> snd (lastPoint example_app) \<noteq> snd (4::int, 2::int)
   \<and> popups (mouseReleaseEvent LeftButton (4, 2) example_app)
       = [(''warning messege'', ''Please mark the box you drew.'')]
   \<and> results (mouseReleaseEvent LeftButton (4, 2) example_app) = [[1, 2, 3, 4, 0], [5, 6, 7, 8]]"
  using manual_mode_pending_label_guard [of example_app "(4, 2)"]
  by (simp add: example_app_simps)

section \<open>Properties of the queue and the writer\<close>

lemma str_nat_0: "str_nat 0 = ''0''"
  by (simp add: str_nat.simps)

lemma remove_skipped_filter:
  assumes "\<forall>y\<in>set ys. \<not> Q y"
  shows "remove_skipped (filter Q xs) (ys @ xs) = Inr (ys @ filter (\<lambda>x. \<not> Q x) xs)"
  using assms
proof (induction xs arbitrary: ys)
  case Nil
  then show ?case by simp
next
  case (Cons x xs)
  show ?case
  proof (cases "Q x")
    case True
    then have "x \<notin> set ys" using Cons.prems by blast
    then have "remove1 x (ys @ x # xs) = ys @ xs" by (simp add: remove1_append)
    then show ?thesis using True Cons.IH [OF Cons.prems] by simp
  next
    case False
    then have "\<forall>y\<in>set (ys @ [x]). \<not> Q y" using Cons.prems by simp
    from Cons.IH [OF this] show ?thesis using False by simp
  qed
qed

lemma save_crop_changes_crops:
  assumes "save_crop RN P i yolo st = Inr st'"
  shows "st' = st\<lparr>crops := crops st'\<rparr>"
  using assms
  by (auto simp: save_crop_def Let_def split: option.splits sum.splits prod.splits if_splits)

lemma append_line_changes_files:
  "append_line p l st = st\<lparr>files := files (append_line p l st)\<rparr>"
  by (simp add: append_line_def)

lemma write_boxes_changes_files_and_crops:
  assumes "write_boxes RN P w h i res st = Inr st'"
  shows "st' = st\<lparr>files := files st', crops := crops st'\<rparr>"
  using assms
proof (induction res arbitrary: i st)
  case Nil
  then show ?case by simp
next
  case (Cons elements rest)
  from Cons.prems obtain lx ly rx ry idx yolo where
    el: "elements = [lx, ly, rx, ry, idx]" and yf: "yolo_format RN lx ly rx ry idx w h = Inr yolo"
    by (auto split: list.splits sum.splits)
  let ?st1 = "append_line (drop_ext (currentImg st) @ ''.txt'') yolo st"
  have one: "?st1 = st\<lparr>files := files ?st1\<rparr>" by (rule append_line_changes_files)
  show ?case
  proof (cases "crop_mode ?st1")
    case True
    with Cons.prems el yf obtain st2 where sc: "save_crop RN P i yolo ?st1 = Inr st2"
      and rec: "write_boxes RN P w h (Suc i) rest st2 = Inr st'"
      by (auto simp: Let_def split: sum.splits)
    have "st2 = ?st1\<lparr>crops := crops st2\<rparr>" by (rule save_crop_changes_crops [OF sc])
    then have "st2 = st\<lparr>files := files ?st1, crops := crops st2\<rparr>" using one by simp
    moreover have "st' = st2\<lparr>files := files st', crops := crops st'\<rparr>" by (rule Cons.IH [OF rec])
    ultimately have "st' = (st\<lparr>files := files ?st1, crops := crops st2\<rparr>)
                             \<lparr>files := files st', crops := crops st'\<rparr>" by simp
    then show ?thesis by simp
  next
    case False
    with Cons.prems el yf have rec: "write_boxes RN P w h (Suc i) rest ?st1 = Inr st'"
      by (auto simp: Let_def)
    have "st' = ?st1\<lparr>files := files st', crops := crops st'\<rparr>" by (rule Cons.IH [OF rec])
    then have "st' = (st\<lparr>files := files ?st1\<rparr>)\<lparr>files := files st', crops := crops st'\<rparr>"
      using one by simp
    then show ?thesis by simp
  qed
qed

lemma writeResults_changes_files_and_crops:
  assumes "writeResults RN P res st = Inr st'"
  shows "st' = st\<lparr>files := files st', crops := crops st'\<rparr>"
proof (cases "fileName st = ''Ready''")
  case True
  then show ?thesis using assms by (auto simp: writeResults_def)
next
  case False
  let ?st0 = "if res = [] then touch (drop_ext (currentImg st) @ ''.txt'') st else st"
  have z: "?st0 = st\<lparr>files := files ?st0\<rparr>" by (simp add: touch_def)
  have "write_boxes RN P (fst (getRatio st)) (snd (getRatio st)) 0 res ?st0 = Inr st'"
    using assms False by (simp add: writeResults_def)
  from write_boxes_changes_files_and_crops [OF this]
  have "st' = ?st0\<lparr>files := files st', crops := crops st'\<rparr>" .
  then have "st' = (st\<lparr>files := files ?st0\<rparr>)\<lparr>files := files st', crops := crops st'\<rparr>"
    using z by simp
  then show ?thesis by simp
qed

lemma write_boxes_returns:
  assumes five: "list_all (\<lambda>b. length b = 5) res" and size: "w \<noteq> 0" "h \<noteq> 0"
    and off: "\<not> crop_mode st"
  shows "\<exists>st'. write_boxes RN P w h i res st = Inr st'"
  using five off
proof (induction res arbitrary: i st)
  case Nil
  then show ?case by simp
next
  case (Cons elements rest)
  from Cons.prems(1) obtain lx ly rx ry idx where el: "elements = [lx, ly, rx, ry, idx]"
    by (auto simp: length5_conv)
  from size obtain yolo where yf: "yolo_format RN lx ly rx ry idx w h = Inr yolo"
    by (simp add: yolo_format_def)
  let ?st1 = "append_line (drop_ext (currentImg st) @ ''.txt'') yolo st"
  have off1: "\<not> crop_mode ?st1" using Cons.prems(2) by (simp add: append_line_def)
  have rest5: "list_all (\<lambda>b. length b = 5) rest" using Cons.prems(1) by simp
  have "\<exists>st'. write_boxes RN P w h (Suc i) rest ?st1 = Inr st'"
    by (rule Cons.IH [OF rest5 off1])
  then show ?case using el yf off1 by (simp add: Let_def)
qed

lemma writeResults_returns:
  assumes five: "list_all (\<lambda>b. length b = 5) res" and size: "W st \<noteq> 0" "H st \<noteq> 0"
    and off: "\<not> crop_mode st"
  shows "\<exists>st'. writeResults RN P res st = Inr st'"
proof (cases "fileName st = ''Ready'' \<or> res = []")
  case True
  then show ?thesis by (auto simp: writeResults_def)
next
  case False
  have "\<exists>st'. write_boxes RN P (W st) (H st) 0 res st = Inr st'"
    by (rule write_boxes_returns [OF five size off])
  then show ?thesis using False by (simp add: writeResults_def getRatio_def)
qed

lemma ensure_results_dir_frame:
  assumes "ensure_results_dir st = Inr st1"
  shows "st1 = st\<lparr>dirs := dirs st1\<rparr>"
  using assms by (auto simp: ensure_results_dir_def split: if_splits option.splits)

lemma ensure_results_dir_dirs:
  assumes "ensure_results_dir st = Inr st1"
  shows "dirs st1 = (if savePathLabel st = ''Results'' \<and> crop_mode st
                     then case save_directory st of
                            None \<Rightarrow> dirs st
                          | Some d \<Rightarrow> insert d (dirs st)
                     else dirs st)"
  using assms by (auto simp: ensure_results_dir_def split: if_splits option.splits)

lemma load_current_changes:
  assumes "load_current RN P st = Inr st'"
  shows "st' = st\<lparr>fileName := basename (currentImg st), progress := progress st',
                   W := W st', H := H st'\<rparr>"
  using assms
  by (auto simp: load_current_def setPixmap_def Let_def split: option.splits if_splits)


lemma jpg_is_not_png: "ends_with ''.jpg'' name \<Longrightarrow> \<not> ends_with ''.png'' name"
  by (auto simp: ends_with_def)

lemma glob_plain:
  assumes "\<not> has_magic directory" and "scandir P directory = Some names"
  shows "glob P directory ext
           = map (path_join directory)
               (filter (\<lambda>name. \<not> ishidden name \<and> ends_with ext name) names)"
  using assms by (simp add: glob_def)

lemma visible_images_filter:
  assumes ls: "scandir P directory = Some names"
    and files: "\<forall>name\<in>set names. ends_with ''.jpg'' name \<or> ends_with ''.png'' name
                  \<longrightarrow> isfile P (path_join directory name)"
  shows "filter (ends_with ''.jpg'') (visible_images P directory)
           = filter (\<lambda>name. \<not> ishidden name \<and> ends_with ''.jpg'' name) names"
    and "filter (ends_with ''.png'') (visible_images P directory)
           = filter (\<lambda>name. \<not> ishidden name \<and> ends_with ''.png'' name) names"
    and "\<forall>name\<in>set (visible_images P directory).
           ends_with ''.png'' name = (\<not> ends_with ''.jpg'' name)"
  using ls files jpg_is_not_png
  by (auto simp: visible_images_def spec_images_def intro!: filter_cong)

lemma length_filter_split:
  assumes "\<forall>x\<in>set xs. B x = (\<not> A x)"
  shows "length (filter A xs) + length (filter B xs) = length xs"
proof -
  have "filter B xs = filter (\<lambda>x. \<not> A x) xs"
    using assms by (intro filter_cong) simp_all
  then show ?thesis by (simp add: sum_length_filter_compl)
qed

lemma set_filter_split:
  assumes "\<forall>x\<in>set xs. B x = (\<not> A x)"
  shows "set (filter A xs) \<union> set (filter B xs) = set xs"
  using assms by auto

lemma pop_next_fields:
  "results (pop_next st) = results st" "files (pop_next st) = files st"
  "crops (pop_next st) = crops st" "dirs (pop_next st) = dirs st"
  "popups (pop_next st) = popups st" "autoLabel (pop_next st) = autoLabel st"
  "total_imgs (pop_next st) = total_imgs st"
  by (simp_all add: pop_next_def split: option.splits list.splits)


lemma setNextImage_keeps_mode:
  assumes "setNextImage RN P img st = Inr (r, st')"
  shows "autoLabel st' = autoLabel st"
proof -
  from assms obtain st1 where e: "ensure_results_dir st = Inr st1"
    by (auto simp: setNextImage_def split: sum.splits)
  have m1: "autoLabel st1 = autoLabel st"
    by (subst ensure_results_dir_frame [OF e]) simp
  have load: "\<And>s s'. load_current RN P s = Inr s' \<Longrightarrow> autoLabel s' = autoLabel s"
    by (subst load_current_changes, assumption) simp
  show ?thesis
  proof (cases "img = None \<or> img = Some []")
    case False
    then have "load_current RN P (resetResult st1) = Inr st'"
      using assms e by (auto simp: setNextImage_def split: sum.splits)
    from load [OF this] show ?thesis using m1 by (simp add: resetResult_def)
  next
    case True
    show ?thesis
    proof (cases "getResult st1 \<noteq> [] \<and> length (last (getResult st1)) \<noteq> 5")
      case guard: True
      then have "st' = showPopupOk ''warning messege'' ''please mark the box you drew.'' st1"
        using assms e True by (auto simp: setNextImage_def)
      then show ?thesis using m1 by (simp add: showPopupOk_def)
    next
      case False
      with assms e True obtain st2 where wr: "writeResults RN P (getResult st1) st1 = Inr st2"
        and ld: "load_current RN P (pop_next (resetResult st2)) = Inr st'"
        by (auto simp: setNextImage_def Let_def split: sum.splits)
      have "autoLabel st2 = autoLabel st1"
        by (subst writeResults_changes_files_and_crops [OF wr]) simp
      then show ?thesis using load [OF ld] m1 by (simp add: pop_next_fields resetResult_def)
    qed
  qed
qed

lemma keyPressEvent_keeps_mode:
  assumes mode: "autoLabel st = ''Manual Label'' \<or> autoLabel st = ''Auto Label''"
    and run: "keyPressEvent RN P key st = Inr st'"
  shows "autoLabel st' = ''Manual Label'' \<or> autoLabel st' = ''Auto Label''"
proof -
  from run obtain st1 where
    first: "(if 49 \<le> key \<and> key \<le> 57 \<and> int (length (key_config st)) \<ge> key - 48
             then markBox (key - 49) st else Inr st) = Inr st1"
    by (auto simp: keyPressEvent_def split: sum.splits)
  have "autoLabel st1 = autoLabel st"
    using first by (auto simp: markBox_def Let_def split: if_splits)
  then have m1: "autoLabel st1 = ''Manual Label'' \<or> autoLabel st1 = ''Auto Label''"
    using mode by simp
  have second: "(if key = 16777216 then Inr (cancelLast st1)
          else if key = 69 then
            (case setNextImage RN P None st1 of Inl e \<Rightarrow> Inl e | Inr (r, st2) \<Rightarrow> Inr st2)
          else if key = 81 then Inr (resetResult st1)
          else if key = 65 then
            (if autoLabel st1 = ''Auto Label'' then Inr (st1\<lparr>autoLabel := ''Manual Label''\<rparr>)
             else Inr (st1\<lparr>autoLabel := ''Auto Label''\<rparr>))
          else Inr st1) = Inr st'"
    using run first by (simp add: keyPressEvent_def)
  show ?thesis
  proof (cases "key = 69")
    case True
    with second obtain r where "setNextImage RN P None st1 = Inr (r, st')"
      by (auto split: sum.splits)
    from setNextImage_keeps_mode [OF this] m1 show ?thesis by simp
  next
    case False
    then show ?thesis using second m1
      by (auto simp: cancelLast_def resetResult_def split: if_splits)
  qed
qed

lemma mouse_events_keep_mode:
  "autoLabel (mouseReleaseEvent b pos st) = autoLabel st"
  "mousePressEvent b pos st = Inr st' \<Longrightarrow> autoLabel st' = autoLabel st"
  by (auto simp: mouseReleaseEvent_def mousePressEvent_def showPopupOk_def Let_def
        split: if_splits sum.splits)

lemma init_app_mode: "autoLabel (init_app key_cfg height) = ''Manual Label''"
  by (simp add: init_app_def)

section \<open>Claims about the directory scan and the commit\<close>

text \<open>
  A directory with the image \<^verbatim>\<open>a.jpg\<close> and the hidden image \<^verbatim>\<open>.thumb.jpg\<close>: two files with
  the extension \<^verbatim>\<open>.jpg\<close> directly in the directory, of which \<^verbatim>\<open>glob\<close> lists one, so that
  \<^verbatim>\<open>total_imgs\<close> is 1 and the queue holds \<^verbatim>\<open>a.jpg\<close> only. A directory with no file but a
  subdirectory named \<^verbatim>\<open>dir.png\<close>: \<^verbatim>\<open>total_imgs\<close> is 1. The root directory, with one image:
  its base name is empty, the handler takes the dialog for cancelled and scans nothing.
\<close>

theorem scan_count_differs_from_files:
  "spec_images example_odd_platform ''/data/imgs'' = [''.thumb.jpg'', ''a.jpg'']
   \<and> map_sum id total_imgs
         (registerInputPath example_odd_platform ''/data/imgs'' (init_app [''cat'', ''dog''] 1000))
       = Inr (Some 1)
   \<and> map_sum id imgList
         (registerInputPath example_odd_platform ''/data/imgs'' (init_app [''cat'', ''dog''] 1000))
       = Inr (Some [''/data/imgs/a.jpg''])
   \<and> spec_images example_odd_platform ''/data/sub'' = []
   \<and> map_sum id total_imgs
         (registerInputPath example_odd_platform ''/data/sub'' (init_app [''cat'', ''dog''] 1000))
       = Inr (Some 1)
   \<and> spec_images example_odd_platform ''/'' = [''r.jpg'']
   \<and> map_sum id total_imgs
         (registerInputPath example_odd_platform ''/'' (init_app [''cat'', ''dog''] 1000))
       = Inr None"
proof -
  have ls: "scandir example_odd_platform ''/data/imgs'' = Some [''.thumb.jpg'', ''a.jpg'']"
    "scandir example_odd_platform ''/data/sub'' = Some [''dir.png'']"
    "scandir example_odd_platform ''/'' = Some [''r.jpg'']"
    by (simp_all add: example_odd_platform_def example_platform_def)
  have isf: "isfile example_odd_platform = (\<lambda>p. p \<noteq> ''/data/sub/dir.png'')"
    by (simp add: example_odd_platform_def example_platform_def)
  have sp: "spec_images example_odd_platform ''/data/imgs'' = [''.thumb.jpg'', ''a.jpg'']"
    "spec_images example_odd_platform ''/data/sub'' = []"
    "spec_images example_odd_platform ''/'' = [''r.jpg'']"
    by (simp_all add: spec_images_def ls isf ends_with_def path_join_def)
  have nm: "\<not> has_magic ''/data/imgs''" "\<not> has_magic ''/data/sub''"
    by (simp_all add: has_magic_def)
  have g1: "glob example_odd_platform ''/data/imgs'' ''.jpg'' = [''/data/imgs/a.jpg'']"
    "glob example_odd_platform ''/data/imgs'' ''.png'' = []"
    by (simp_all add: glob_plain [OF nm(1) ls(1)] ishidden_def ends_with_def path_join_def)
  have g2: "glob example_odd_platform ''/data/sub'' ''.jpg'' = []"
    "glob example_odd_platform ''/data/sub'' ''.png'' = [''/data/sub/dir.png'']"
    by (simp_all add: glob_plain [OF nm(2) ls(2)] ishidden_def ends_with_def path_join_def)
  have r1: "registerInputPath example_odd_platform ''/data/imgs'' (init_app [''cat'', ''dog''] 1000)
      = Inr ((init_app [''cat'', ''dog''] 1000)
          \<lparr>imgList := Some [''/data/imgs/a.jpg''], total_imgs := Some 1,
           savePathLabel := ''Results'', save_directory := Some ''/data/imgs/Results''\<rparr>)"
    by (simp add: registerInputPath_def g1 basename_def path_exists_def drop_ext_def
          init_app_def path_join_def)
  have r2: "registerInputPath example_odd_platform ''/data/sub'' (init_app [''cat'', ''dog''] 1000)
      = Inr ((init_app [''cat'', ''dog''] 1000)
          \<lparr>imgList := Some [''/data/sub/dir.png''], total_imgs := Some 1,
           savePathLabel := ''Results'', save_directory := Some ''/data/sub/Results''\<rparr>)"
    by (simp add: registerInputPath_def g2 basename_def path_exists_def drop_ext_def
          init_app_def path_join_def)
  have r3: "registerInputPath example_odd_platform ''/'' (init_app [''cat'', ''dog''] 1000)
      = Inr (init_app [''cat'', ''dog''] 1000)"
    by (simp add: registerInputPath_def basename_def)
  have t1: "map_sum id total_imgs
         (registerInputPath example_odd_platform ''/data/imgs'' (init_app [''cat'', ''dog''] 1000))
       = Inr (Some 1)"
    and q1: "map_sum id imgList
         (registerInputPath example_odd_platform ''/data/imgs'' (init_app [''cat'', ''dog''] 1000))
       = Inr (Some [''/data/imgs/a.jpg''])"
    by (simp_all add: r1)
  have t2: "map_sum id total_imgs
         (registerInputPath example_odd_platform ''/data/sub'' (init_app [''cat'', ''dog''] 1000))
       = Inr (Some 1)"
    by (simp add: r2)
  have t3: "map_sum id total_imgs
         (registerInputPath example_odd_platform ''/'' (init_app [''cat'', ''dog''] 1000))
       = Inr None"
    unfolding r3 by (simp add: init_app_def)
  show ?thesis using sp t1 q1 t2 t3 by (intro conjI)
qed

text \<open>
  C7, amended. For an input directory that the handler accepts (its base name is not
  empty), whose path has none of the pattern characters \<^verbatim>\<open>*\<close>, \<^verbatim>\<open>?\<close>, \<^verbatim>\<open>[\<close>, and in which
  every entry named \<^verbatim>\<open>*.jpg\<close> or \<^verbatim>\<open>*.png\<close> is a file: the scan returns normally,
  \<^verbatim>\<open>total_imgs\<close> is the number of files with extension \<^verbatim>\<open>.jpg\<close> or \<^verbatim>\<open>.png\<close> directly in the
  directory whose name does not start with a dot, and the queue \<^verbatim>\<open>imgList\<close> is that
  collection (the \<^verbatim>\<open>.jpg\<close> files first, then the \<^verbatim>\<open>.png\<close> files, each joined to the
  directory) without every path whose label file \<^verbatim>\<open>path[:-4] + '.txt'\<close> exists. In the
  example directory, five images of which two have a label file give
  \<^verbatim>\<open>total_imgs = 5\<close> and a queue of length 3.
\<close>

theorem directory_scan:
  assumes sel: "basename directory \<noteq> []" and plain: "\<not> has_magic directory"
    and ls: "scandir P directory = Some names"
    and files: "\<forall>name\<in>set names. ends_with ''.jpg'' name \<or> ends_with ''.png'' name
                  \<longrightarrow> isfile P (path_join directory name)"
  shows "\<exists>st' queue. registerInputPath P directory st = Inr st'
     \<and> total_imgs st' = Some (length (visible_images P directory))
     \<and> imgList st' = Some queue
     \<and> queue = filter (\<lambda>imgPath. \<not> path_exists st (drop_ext imgPath @ ''.txt''))
                 (map (path_join directory)
                    (filter (ends_with ''.jpg'') (visible_images P directory)
                     @ filter (ends_with ''.png'') (visible_images P directory)))
     \<and> set queue = {imgPath \<in> path_join directory ` set (visible_images P directory).
                      \<not> path_exists st (drop_ext imgPath @ ''.txt'')}"
proof -
  let ?vis = "visible_images P directory"
  let ?imgs = "glob P directory ''.jpg'' @ glob P directory ''.png''"
  let ?Q = "\<lambda>imgPath. path_exists st (drop_ext imgPath @ ''.txt'')"
  note vf = visible_images_filter [OF ls files]
  have imgs: "?imgs = map (path_join directory)
                        (filter (ends_with ''.jpg'') ?vis @ filter (ends_with ''.png'') ?vis)"
    by (simp add: glob_plain [OF plain ls] vf(1,2))
  have len: "length ?imgs = length ?vis"
    using length_filter_split [OF vf(3)] by (simp add: imgs)
  have sets: "set ?imgs = path_join directory ` set ?vis"
    using set_filter_split [OF vf(3)] by (simp add: imgs image_Un [symmetric] del: set_filter)
  have "remove_skipped (filter ?Q ?imgs) ([] @ ?imgs) = Inr ([] @ filter (\<lambda>x. \<not> ?Q x) ?imgs)"
    by (rule remove_skipped_filter) simp
  then have r: "remove_skipped (filter ?Q ?imgs) ?imgs = Inr (filter (\<lambda>x. \<not> ?Q x) ?imgs)"
    by simp
  have run: "\<exists>st'. registerInputPath P directory st = Inr st'
      \<and> total_imgs st' = Some (length ?imgs)
      \<and> imgList st' = Some (filter (\<lambda>x. \<not> ?Q x) ?imgs)"
    using sel r by (simp add: registerInputPath_def Let_def)
  have q: "set (filter (\<lambda>x. \<not> ?Q x) ?imgs)
      = {imgPath \<in> path_join directory ` set ?vis. \<not> ?Q imgPath}"
    using sets by auto
  show ?thesis using run len q unfolding imgs by auto
qed

theorem directory_scan_witness:
  "basename ''/data/imgs'' \<noteq> [] \<and> \<not> has_magic ''/data/imgs''
   \<and> visible_images example_platform ''/data/imgs''
       = [''a.jpg'', ''b.jpg'', ''c.jpg'', ''d.png'', ''e.png'']
   \<and> (\<exists>st'. registerInputPath example_platform ''/data/imgs'' example_scanned = Inr st'
        \<and> total_imgs st' = Some 5
        \<and> imgList st' = Some [''/data/imgs/b.jpg'', ''/data/imgs/c.jpg'', ''/data/imgs/e.png''])
   \<and> length [''/data/imgs/b.jpg'', ''/data/imgs/c.jpg'', ''/data/imgs/e.png''] = 3"
proof -
  have b: "basename ''/data/imgs'' \<noteq> []"
    by (simp add: basename_def)
  have nm: "\<not> has_magic ''/data/imgs''" by (simp add: has_magic_def)
  have ls: "scandir example_platform ''/data/imgs''
      = Some [''a.jpg'', ''a.txt'', ''b.jpg'', ''c.jpg'', ''d.png'', ''d.txt'', ''e.png'']"
    by (simp add: example_platform_def)
  have "\<And>p. isfile example_platform p" by (simp add: example_platform_def)
  then have fl: "\<forall>name\<in>set [''a.jpg'', ''a.txt'', ''b.jpg'', ''c.jpg'', ''d.png'', ''d.txt'', ''e.png''].
      ends_with ''.jpg'' name \<or> ends_with ''.png'' name
        \<longrightarrow> isfile example_platform (path_join ''/data/imgs'' name)"
    by blast
  have e: "ends_with ''.jpg'' ''a.jpg''" "ends_with ''.jpg'' ''b.jpg''" "ends_with ''.jpg'' ''c.jpg''"
    "\<not> ends_with ''.jpg'' ''d.png''" "\<not> ends_with ''.jpg'' ''e.png''"
    "\<not> ends_with ''.jpg'' ''a.txt''" "\<not> ends_with ''.jpg'' ''d.txt''"
    "ends_with ''.png'' ''d.png''" "ends_with ''.png'' ''e.png''"
    "\<not> ends_with ''.png'' ''a.jpg''" "\<not> ends_with ''.png'' ''b.jpg''" "\<not> ends_with ''.png'' ''c.jpg''"
    "\<not> ends_with ''.png'' ''a.txt''" "\<not> ends_with ''.png'' ''d.txt''"
    by (simp_all add: ends_with_def)
  have h: "\<not> ishidden ''a.jpg''" "\<not> ishidden ''b.jpg''" "\<not> ishidden ''c.jpg''"
    "\<not> ishidden ''d.png''" "\<not> ishidden ''e.png''"
    by (simp_all add: ishidden_def)
  have vis: "visible_images example_platform ''/data/imgs''
      = [''a.jpg'', ''b.jpg'', ''c.jpg'', ''d.png'', ''e.png'']"
    using \<open>\<And>p. isfile example_platform p\<close>
    by (simp add: visible_images_def spec_images_def ls e h)
  have j: "map (path_join ''/data/imgs'')
             (filter (ends_with ''.jpg'') [''a.jpg'', ''b.jpg'', ''c.jpg'', ''d.png'', ''e.png'']
              @ filter (ends_with ''.png'') [''a.jpg'', ''b.jpg'', ''c.jpg'', ''d.png'', ''e.png''])
           = [''/data/imgs/a.jpg'', ''/data/imgs/b.jpg'', ''/data/imgs/c.jpg'',
              ''/data/imgs/d.png'', ''/data/imgs/e.png'']"
    by (simp add: e path_join_def)
  have f: "filter (\<lambda>imgPath. \<not> path_exists example_scanned (drop_ext imgPath @ ''.txt''))
             [''/data/imgs/a.jpg'', ''/data/imgs/b.jpg'', ''/data/imgs/c.jpg'',
              ''/data/imgs/d.png'', ''/data/imgs/e.png'']
           = [''/data/imgs/b.jpg'', ''/data/imgs/c.jpg'', ''/data/imgs/e.png'']"
    by (simp add: example_scanned_def init_app_def path_exists_def drop_ext_def)
  from directory_scan [OF b nm ls fl, of example_scanned]
  obtain st' queue where r: "registerInputPath example_platform ''/data/imgs'' example_scanned = Inr st'"
    and t: "total_imgs st' = Some (length (visible_images example_platform ''/data/imgs''))"
    and q: "imgList st' = Some queue"
    and d: "queue = filter (\<lambda>imgPath. \<not> path_exists example_scanned (drop_ext imgPath @ ''.txt''))
                 (map (path_join ''/data/imgs'')
                    (filter (ends_with ''.jpg'') (visible_images example_platform ''/data/imgs'')
                     @ filter (ends_with ''.png'') (visible_images example_platform ''/data/imgs'')))"
    by blast
  have t5: "total_imgs st' = Some 5" using t by (simp add: vis)
  have q3: "imgList st' = Some [''/data/imgs/b.jpg'', ''/data/imgs/c.jpg'', ''/data/imgs/e.png'']"
    using q d by (simp only: vis j f)
  show ?thesis using b nm vis r t5 q3 by simp
qed

text \<open>
  The images \<^verbatim>\<open>a.jpg\<close> and \<^verbatim>\<open>a.png\<close> share the label file \<^verbatim>\<open>a.txt\<close>. After \<^verbatim>\<open>a.jpg\<close> has
  been committed with one box, the commit of \<^verbatim>\<open>a.png\<close> with an empty box list opens
  \<^verbatim>\<open>a.txt\<close> for appending and closes it: the label file of \<^verbatim>\<open>a.png\<close> is not empty.
\<close>

theorem empty_commit_keeps_existing_lines:
  "fileName example_shared_stem \<noteq> ''Ready''
   \<and> drop_ext (currentImg example_shared_stem) @ ''.txt'' = ''/data/imgs/a.txt''
   \<and> writeResults (\<lambda>x. x) example_platform [] example_shared_stem = Inr example_shared_stem
   \<and> files example_shared_stem ''/data/imgs/a.txt'' = Some [(0, 1 / 2, 1 / 2, 1 / 5, 1 / 10)]"
  by (simp add: writeResults_def touch_def example_shared_stem_def init_app_def drop_ext_def)

text \<open>
  C8, amended. A commit of an empty box list for a loaded image (the file-name label
  is no longer "Ready") returns normally; afterwards the label file
  \<^verbatim>\<open>currentImg[:-4] + '.txt'\<close> exists, created empty if it did not exist and with its
  lines as they were if it did; no line is written to it, no other label file
  changes, and no crop is saved, with crop mode on or off.
\<close>

theorem empty_commit_creates_sidecar:
  assumes "fileName st \<noteq> ''Ready''"
  shows "\<exists>st'. writeResults RN P [] st = Inr st'
     \<and> files st' (drop_ext (currentImg st) @ ''.txt'')
         = Some (case files st (drop_ext (currentImg st) @ ''.txt'') of None \<Rightarrow> [] | Some ls \<Rightarrow> ls)
     \<and> (\<forall>p. p \<noteq> drop_ext (currentImg st) @ ''.txt'' \<longrightarrow> files st' p = files st p)
     \<and> crops st' = crops st"
  using assms by (auto simp: writeResults_def touch_def split: option.splits)

theorem empty_commit_creates_sidecar_witness:
  "fileName example_session \<noteq> ''Ready'' \<and> crop_mode example_session
   \<and> files example_session ''/data/imgs/b.txt'' = None
   \<and> (\<exists>st'. writeResults (\<lambda>x. x) example_platform [] example_session = Inr st'
        \<and> files st' ''/data/imgs/b.txt'' = Some []
        \<and> files st' ''/data/imgs/a.txt'' = files example_session ''/data/imgs/a.txt''
        \<and> crops st' = crops example_session)"
proof -
  have n: "fileName example_session \<noteq> ''Ready''"
    by (simp add: example_session_def init_app_def)
  have c: "drop_ext (currentImg example_session) @ ''.txt'' = ''/data/imgs/b.txt''"
    by (simp add: example_session_def init_app_def drop_ext_def)
  have f: "files example_session ''/data/imgs/b.txt'' = None"
    by (simp add: example_session_def init_app_def)
  have m: "crop_mode example_session"
    by (simp add: example_session_def init_app_def)
  from empty_commit_creates_sidecar [OF n, of "\<lambda>x. x" example_platform]
  obtain st' where "writeResults (\<lambda>x. x) example_platform [] example_session = Inr st'"
    and "files st' ''/data/imgs/b.txt'' = Some []"
    and "files st' ''/data/imgs/a.txt'' = files example_session ''/data/imgs/a.txt''"
    and "crops st' = crops example_session"
    unfolding c by (auto simp: f)
  then show ?thesis using n f m by simp
qed

section \<open>Claims about advancing to the next image\<close>

lemma example_session_simps:
  "fileName example_session = ''b.jpg''"
  "currentImg example_session = ''/data/imgs/b.jpg''"
  "imgList example_session = Some [''/data/imgs/c.jpg'', ''/data/imgs/e.png'']"
  "total_imgs example_session = Some 5"
  "crop_mode example_session"
  "savePathLabel example_session = ''Results''"
  "save_directory example_session = Some ''/data/imgs/Results''"
  "W example_session = 640"
  "H example_session = 480"
  "key_config example_session = [''cat'', ''dog'']"
  "dirs example_session = {}"
  "popups example_session = []"
  "results example_session = []"
  "crops example_session = Map.empty"
  "files example_session = [''/data/imgs/a.txt'' \<mapsto> [], ''/data/imgs/d.txt'' \<mapsto> []]"
  by (simp_all add: example_session_def init_app_def)


text \<open>In crop mode the writer raises on a labelled box of width zero: its crop is
  empty. The label line has been appended by then; the store is not reset and the
  queue is not popped.\<close>

lemma zero_width_crop_raises:
  "writeResults (\<lambda>x. x) example_platform [[10, 20, 10, 220, 1]]
     (example_session\<lparr>results := [[10, 20, 10, 220, 1]], dirs := {''/data/imgs/Results''}\<rparr>)
   = Inl Cv2Error"
proof -
  have px: "abs_pixel_coords (\<lambda>x. x) (1, 1 / 64, 1 / 4, 0, 5 / 12) 640 480 = (10, 20, 0, 200)"
    by (simp add: abs_pixel_coords_def py_round_def Let_def)
  have rd: "read_image example_platform ''/data/imgs/b.jpg'' = Inr (480, 640)"
    by (simp add: read_image_def example_platform_def)
  have sl: "slice_len 640 10 10 = 0"
    by (simp add: slice_len_def)
  show ?thesis
    by (simp add: writeResults_def getRatio_def example_session_simps yolo_format_def
          append_line_def drop_ext_def save_crop_def rd px sl py_index_def
          basename_def str_nat_0 path_join_def Let_def)
qed




section \<open>Properties of rounding\<close>

lemma py_round_near:
  assumes "\<bar>x - of_int n\<bar> < 1 / 2"
  shows "py_round x = n"
proof -
  have lo: "of_int n - 1 / 2 < x" and hi: "x < of_int n + 1 / 2"
    using assms by linarith+
  show ?thesis
  proof (cases "of_int n \<le> x")
    case True
    then have "\<lfloor>x\<rfloor> = n" using hi by (intro floor_unique) simp_all
    then show ?thesis using hi by (simp add: py_round_def Let_def)
  next
    case False
    then have f: "\<lfloor>x\<rfloor> = n - 1" using lo by (intro floor_unique) simp_all
    have "1 / 2 < x - of_int (n - 1)" using lo by simp
    then show ?thesis using f by (simp add: py_round_def Let_def)
  qed
qed

lemma py_round_of_int: "py_round (of_int n) = n"
  by (rule py_round_near) simp

lemma float_rounding_exact:
  assumes "float_rounding RN" and "\<bar>n\<bar> \<le> 2 ^ 53"
  shows "RN (of_int n) = of_int n"
  using assms by (simp add: float_rounding_def)

lemma float_rounding_one:
  assumes "float_rounding RN"
  shows "RN 1 = 1"
  using float_rounding_exact [OF assms, of 1] by simp

lemma float_rounding_mono:
  assumes "float_rounding RN" and "x \<le> y"
  shows "RN x \<le> RN y"
  using assms by (simp add: float_rounding_def mono_def)

lemma float_rounding_exact_arithmetic: "float_rounding (\<lambda>x. x)"
  by (simp add: float_rounding_def mono_def)

section \<open>Claims about the coordinate mapping\<close>

text \<open>
  C9. For an image of size \<open>w0 \<times> h0\<close> with \<open>h0 > 0\<close> (both within the integers a double
  holds exactly, as every Qt pixmap size is), \<^verbatim>\<open>setPixmap\<close> leaves the display size
  \<open>(round (w0 \<sqdot> scale), round (h0 \<sqdot> scale))\<close> for
  \<open>scale = min(1, 0.8 \<sqdot> screen_height / h0)\<close>: one ratio for both directions, decided by
  the height against 80% of the screen height alone. The scale is never above 1, and
  when \<open>h0\<close> is at most 80% of the screen height it is 1 and the size stays \<open>(w0, h0)\<close>.
\<close>

theorem display_geometry:
  assumes fr: "float_rounding RN"
    and size: "pixmap_size P fn = (w0, h0)"
    and h0: "0 < h0" "h0 \<le> 2 ^ 53" and w0: "\<bar>w0\<bar> \<le> 2 ^ 53"
  shows "getRatio (setPixmap RN P fn st)
           = (py_round (RN (RN (of_int w0) * spec_scale RN (screen_height st) h0)),
              py_round (RN (RN (of_int h0) * spec_scale RN (screen_height st) h0)))
     \<and> spec_scale RN (screen_height st) h0 \<le> 1
     \<and> (of_int h0 \<le> RN (RN (of_int (screen_height st)) * RN (8 / 10)) \<longrightarrow>
          spec_scale RN (screen_height st) h0 = 1
          \<and> getRatio (setPixmap RN P fn st) = (w0, h0))"
proof -
  let ?limit = "RN (RN (of_int (screen_height st)) * RN (8 / 10))"
  have eh: "RN (of_int h0) = of_int h0"
    using h0 by (intro float_rounding_exact [OF fr]) simp
  have ew: "RN (of_int w0) = of_int w0"
    using w0 by (intro float_rounding_exact [OF fr])
  have one: "RN 1 = 1" by (rule float_rounding_one [OF fr])
  have pos: "(0::real) < of_int h0" using h0 by simp
  have sc: "spec_scale RN (screen_height st) h0 = min 1 (RN (?limit / of_int h0))"
    by (simp add: spec_scale_def eh mult.commute)
  show ?thesis
  proof (cases "of_int h0 > ?limit")
    case True
    then have "?limit / of_int h0 \<le> 1" using pos by (simp add: field_simps)
    then have "RN (?limit / of_int h0) \<le> 1"
      using float_rounding_mono [OF fr, of "?limit / of_int h0" 1] one by simp
    then have s: "spec_scale RN (screen_height st) h0 = RN (?limit / of_int h0)"
      using sc by simp
    show ?thesis using True s \<open>RN (?limit / of_int h0) \<le> 1\<close>
      by (simp add: setPixmap_def getRatio_def Let_def size eh)
  next
    case False
    then have "1 \<le> ?limit / of_int h0" using pos by (simp add: field_simps)
    then have "1 \<le> RN (?limit / of_int h0)"
      using float_rounding_mono [OF fr, of 1 "?limit / of_int h0"] one by simp
    then have s: "spec_scale RN (screen_height st) h0 = 1"
      using sc by simp
    show ?thesis using False s
      by (simp add: setPixmap_def getRatio_def Let_def size eh ew py_round_of_int)
  qed
qed

text \<open>On a screen of height 1000, in exact arithmetic: an image of \<open>1000 \<times> 2000\<close> is
  shown at \<open>400 \<times> 800\<close>, one of \<open>640 \<times> 480\<close> as it is.\<close>

theorem display_geometry_witness:
  "float_rounding (\<lambda>x. x)
   \<and> pixmap_size example_platform ''/data/imgs/e.png'' = (1000, 2000)
   \<and> pixmap_size example_platform ''/data/imgs/b.jpg'' = (640, 480)
   \<and> spec_scale (\<lambda>x. x) 1000 2000 = 2 / 5
   \<and> getRatio (setPixmap (\<lambda>x. x) example_platform ''/data/imgs/e.png'' example_session)
       = (400, 800)
   \<and> spec_scale (\<lambda>x. x) 1000 480 = 1
   \<and> getRatio (setPixmap (\<lambda>x. x) example_platform ''/data/imgs/b.jpg'' example_session)
       = (640, 480)"
proof -
  have p1: "pixmap_size example_platform ''/data/imgs/e.png'' = (1000, 2000)"
    and p2: "pixmap_size example_platform ''/data/imgs/b.jpg'' = (640, 480)"
    by (simp_all add: example_platform_def)
  have sh: "screen_height example_session = 1000"
    by (simp add: example_session_def init_app_def)
  have s1: "spec_scale (\<lambda>x. x) 1000 2000 = 2 / 5" and s2: "spec_scale (\<lambda>x. x) 1000 480 = 1"
    by (simp_all add: spec_scale_def)
  have r1: "py_round 400 = 400" and r2: "py_round 800 = 800"
    and r3: "py_round 640 = 640" and r4: "py_round 480 = 480"
    by (simp_all add: py_round_def Let_def)
  from display_geometry [OF float_rounding_exact_arithmetic p1, of example_session]
  have g1: "getRatio (setPixmap (\<lambda>x. x) example_platform ''/data/imgs/e.png'' example_session)
       = (400, 800)"
    by (simp add: sh s1 r1 r2)
  from display_geometry [OF float_rounding_exact_arithmetic p2, of example_session]
  have g2: "getRatio (setPixmap (\<lambda>x. x) example_platform ''/data/imgs/b.jpg'' example_session)
       = (640, 480)"
    by (simp add: sh s2 r3 r4)
  show ?thesis
    using float_rounding_exact_arithmetic p1 p2 s1 s2 g1 g2 by simp
qed

section \<open>Rounding errors of the round trip\<close>

text \<open>Pixel coordinates are far below \<open>2^34\<close>, where one rounding moves a value by at
  most \<open>2^-18\<close>; dividing by the display size and multiplying by it again stays as
  close, since the relative error of the quotient is scaled back by the product.\<close>

lemma subnormal_step_small: "(1::real) / 2 ^ 1075 \<le> 1 / 2 ^ 60"
proof -
  have "(2::real) ^ 60 \<le> 2 ^ 1075" by (rule power_increasing) simp_all
  then show ?thesis by (simp add: frac_le)
qed

lemma double_range: "(2::real) ^ 34 \<le> 2 ^ 1023"
  by (rule power_increasing) simp_all

lemma float_rounding_error:
  assumes fr: "float_rounding RN" and x: "\<bar>x\<bar> \<le> 2 ^ 34"
  shows "\<bar>RN x - x\<bar> \<le> \<bar>x\<bar> / 2 ^ 53 + 1 / 2 ^ 60"
proof -
  have "\<bar>x\<bar> \<le> 2 ^ 1023" using x double_range by linarith
  then have "\<bar>RN x - x\<bar> \<le> \<bar>x\<bar> / 2 ^ 53 + 1 / 2 ^ 1075"
    using fr by (simp add: float_rounding_def)
  then show ?thesis using subnormal_step_small by linarith
qed

lemma float_rounding_close:
  assumes fr: "float_rounding RN" and x: "\<bar>x\<bar> \<le> 2 ^ 34"
  shows "\<bar>RN x - x\<bar> \<le> 1 / 2 ^ 18"
proof -
  have "\<bar>x\<bar> / 2 ^ 53 \<le> 2 ^ 34 / 2 ^ 53" using x by (simp add: divide_right_mono)
  then show ?thesis using float_rounding_error [OF fr x] by simp
qed

lemma float_div_mult_close:
  assumes fr: "float_rounding RN" and d: "1 \<le> d" "d \<le> 2 ^ 31" and c: "\<bar>c\<bar> \<le> 2 ^ 34"
  shows "\<bar>RN (c / d) * d - c\<bar> \<le> 1 / 2 ^ 18"
proof -
  have dpos: "0 < d" using d by linarith
  have "\<bar>c / d\<bar> = \<bar>c\<bar> / d" using dpos by simp
  also have "\<dots> \<le> \<bar>c\<bar> / 1" using d by (intro divide_left_mono) simp_all
  finally have q: "\<bar>c / d\<bar> \<le> 2 ^ 34" using c by simp
  have e: "\<bar>RN (c / d) - c / d\<bar> \<le> \<bar>c / d\<bar> / 2 ^ 53 + 1 / 2 ^ 60"
    by (rule float_rounding_error [OF fr q])
  have "RN (c / d) * d - c = (RN (c / d) - c / d) * d" using dpos by (simp add: field_simps)
  then have "\<bar>RN (c / d) * d - c\<bar> = \<bar>RN (c / d) - c / d\<bar> * d"
    using dpos by (simp add: abs_mult)
  also have "\<dots> \<le> (\<bar>c / d\<bar> / 2 ^ 53 + 1 / 2 ^ 60) * d"
    using e dpos by (intro mult_right_mono) simp_all
  also have "\<dots> = \<bar>c\<bar> / 2 ^ 53 + d / 2 ^ 60"
    using dpos by (simp add: field_simps)
  also have "\<dots> \<le> 2 ^ 34 / 2 ^ 53 + 2 ^ 31 / 2 ^ 60"
    using c d by (intro add_mono divide_right_mono) simp_all
  also have "\<dots> \<le> 1 / 2 ^ 18" by simp
  finally show ?thesis .
qed

lemma abs_bound_near:
  fixes x y :: real
  assumes "\<bar>x - y\<bar> \<le> e" and "\<bar>y\<bar> \<le> b" and "e + b \<le> c"
  shows "\<bar>x\<bar> \<le> c"
  using assms by linarith

lemma abs_near_chain:
  fixes x y z :: real
  assumes "\<bar>x - y\<bar> \<le> e1" and "\<bar>z - x\<bar> \<le> e2" and "e1 + e2 < h"
  shows "\<bar>z - y\<bar> < h"
  using assms by linarith

lemma four_errors:
  fixes c m t t' h h' l e :: real
  assumes "\<bar>c - m\<bar> \<le> e" and "\<bar>t - c\<bar> \<le> e" and "\<bar>t' - t\<bar> \<le> e"
    and "\<bar>h' - h\<bar> \<le> e" and "m - h = l"
  shows "\<bar>t' - h' - l\<bar> \<le> 4 * e"
  using assms by linarith

lemma roundtrip_width:
  assumes fr: "float_rounding RN" and d: "0 < d" "d \<le> 2 ^ 31"
    and l: "\<bar>l\<bar> \<le> 2 ^ 31" and r: "\<bar>r\<bar> \<le> 2 ^ 31"
  shows "py_round (RN (RN (of_int (r - l) / of_int d) * RN (of_int d))) = r - l"
proof -
  let ?D = "real_of_int d" and ?a = "real_of_int (r - l)"
  have ed: "RN ?D = ?D" using d by (intro float_rounding_exact [OF fr]) simp
  have D: "1 \<le> ?D" "?D \<le> 2 ^ 31" using d by simp_all
  have "\<bar>r - l\<bar> \<le> 2 ^ 32" using l r by simp
  then have "real_of_int \<bar>r - l\<bar> \<le> real_of_int (2 ^ 32)" by (simp only: of_int_le_iff)
  then have a: "\<bar>?a\<bar> \<le> 2 ^ 32" by simp
  then have a34: "\<bar>?a\<bar> \<le> 2 ^ 34" by simp
  let ?t = "RN (?a / ?D) * ?D"
  have t: "\<bar>?t - ?a\<bar> \<le> 1 / 2 ^ 18"
    by (rule float_div_mult_close [OF fr D a34])
  have "\<bar>?t\<bar> \<le> 2 ^ 34" by (rule abs_bound_near [OF t a]) simp
  then have e: "\<bar>RN ?t - ?t\<bar> \<le> 1 / 2 ^ 18" by (rule float_rounding_close [OF fr])
  have "\<bar>RN ?t - ?a\<bar> < 1 / 2" by (rule abs_near_chain [OF t e]) simp
  then have "py_round (RN ?t) = r - l" by (rule py_round_near)
  then show ?thesis by (simp only: ed)
qed

lemma roundtrip_corner:
  assumes fr: "float_rounding RN" and d: "0 < d" "d \<le> 2 ^ 31"
    and l: "\<bar>l\<bar> \<le> 2 ^ 31" and r: "\<bar>r\<bar> \<le> 2 ^ 31"
  shows "py_round (RN (RN (RN (RN (of_int (l + r) / 2) / RN (of_int d)) * RN (of_int d))
                        - RN (of_int (r - l) / 2))) = l"
proof -
  let ?D = "real_of_int d"
  let ?mid = "real_of_int (l + r) / 2" and ?half = "real_of_int (r - l) / 2"
  have ed: "RN ?D = ?D" using d by (intro float_rounding_exact [OF fr]) simp
  have D: "1 \<le> ?D" "?D \<le> 2 ^ 31" using d by simp_all
  have mid: "\<bar>?mid\<bar> \<le> 2 ^ 31" and half: "\<bar>?half\<bar> \<le> 2 ^ 31" using l r by simp_all
  have diff: "?mid - ?half = real_of_int l" by (simp add: field_simps)
  let ?c = "RN ?mid"
  have e1: "\<bar>?c - ?mid\<bar> \<le> 1 / 2 ^ 18"
    using mid by (intro float_rounding_close [OF fr]) simp
  have c32: "\<bar>?c\<bar> \<le> 2 ^ 32" by (rule abs_bound_near [OF e1 mid]) simp
  then have c: "\<bar>?c\<bar> \<le> 2 ^ 34" by simp
  let ?t = "RN (?c / ?D) * ?D"
  have e2: "\<bar>?t - ?c\<bar> \<le> 1 / 2 ^ 18"
    by (rule float_div_mult_close [OF fr D c])
  have t: "\<bar>?t\<bar> \<le> 2 ^ 34" by (rule abs_bound_near [OF e2 c32]) simp
  have e3: "\<bar>RN ?t - ?t\<bar> \<le> 1 / 2 ^ 18" by (rule float_rounding_close [OF fr t])
  have e4: "\<bar>RN ?half - ?half\<bar> \<le> 1 / 2 ^ 18"
    using half by (intro float_rounding_close [OF fr]) simp
  let ?dif = "RN ?t - RN ?half"
  have near: "\<bar>?dif - real_of_int l\<bar> \<le> 4 * (1 / 2 ^ 18)"
    by (rule four_errors [OF e1 e2 e3 e4 diff])
  have lb: "\<bar>real_of_int l\<bar> \<le> 2 ^ 31" using l by simp
  have "\<bar>?dif\<bar> \<le> 2 ^ 34" by (rule abs_bound_near [OF near lb]) simp
  then have e5: "\<bar>RN ?dif - ?dif\<bar> \<le> 1 / 2 ^ 18" by (rule float_rounding_close [OF fr])
  have "\<bar>RN ?dif - real_of_int l\<bar> < 1 / 2" by (rule abs_near_chain [OF near e5]) simp
  then have "py_round (RN ?dif) = l" by (rule py_round_near)
  then show ?thesis by (simp only: ed)
qed

text \<open>
  C6. Round trip. For a display size \<open>dw \<times> dh\<close> with positive sides and a box whose
  coordinates are in the range of Qt's 32-bit pixel coordinates, \<^verbatim>\<open>yolo_format\<close> raises
  nothing, and the pixel rectangle \<open>(x, y, w, h)\<close> that the crop code computes back from
  the normalised tuple against \<open>ow = dw\<close>, \<open>oh = dh\<close> is \<open>(lx, ly, rx - lx, ry - ly)\<close>:
  the corners \<open>(x, y)\<close> and \<open>(x + w, y + h)\<close> are the box's own, so each coordinate is
  within one pixel. This holds for every rounding function with the properties of
  \<open>float_rounding\<close>, exact arithmetic and IEEE doubles alike.
\<close>

theorem normalized_roundtrip:
  assumes fr: "float_rounding RN"
    and dw: "0 < dw" "dw \<le> 2 ^ 31" and dh: "0 < dh" "dh \<le> 2 ^ 31"
    and lx: "\<bar>lx\<bar> \<le> 2 ^ 31" and rx: "\<bar>rx\<bar> \<le> 2 ^ 31"
    and ly: "\<bar>ly\<bar> \<le> 2 ^ 31" and ry: "\<bar>ry\<bar> \<le> 2 ^ 31"
  shows "\<exists>yolo x y bw bh.
           yolo_format RN lx ly rx ry idx dw dh = Inr yolo
         \<and> abs_pixel_coords RN yolo dw dh = (x, y, bw, bh)
         \<and> x = lx \<and> y = ly \<and> x + bw = rx \<and> y + bh = ry
         \<and> \<bar>x - lx\<bar> \<le> 1 \<and> \<bar>y - ly\<bar> \<le> 1 \<and> \<bar>x + bw - rx\<bar> \<le> 1 \<and> \<bar>y + bh - ry\<bar> \<le> 1"
proof -
  note wx = roundtrip_width [OF fr dw lx rx] and wy = roundtrip_width [OF fr dh ly ry]
  note cx = roundtrip_corner [OF fr dw lx rx] and cy = roundtrip_corner [OF fr dh ly ry]
  have yf: "yolo_format RN lx ly rx ry idx dw dh
      = Inr (idx, RN (RN (of_int (lx + rx) / 2) / RN (of_int dw)),
                  RN (RN (of_int (ly + ry) / 2) / RN (of_int dh)),
                  RN (of_int (rx - lx) / of_int dw),
                  RN (of_int (ry - ly) / of_int dh))"
    using dw dh by (simp add: yolo_format_def)
  have px: "abs_pixel_coords RN
         (idx, RN (RN (of_int (lx + rx) / 2) / RN (of_int dw)),
               RN (RN (of_int (ly + ry) / 2) / RN (of_int dh)),
               RN (of_int (rx - lx) / of_int dw),
               RN (of_int (ry - ly) / of_int dh)) dw dh
      = (lx, ly, rx - lx, ry - ly)"
    unfolding abs_pixel_coords_def prod.case Let_def wx wy cx cy ..
  show ?thesis using yf px by simp
qed

text \<open>The box \<open>[10, 20, 110, 220, 1]\<close> on a display of \<open>640 \<times> 480\<close>, in exact
  arithmetic.\<close>

theorem normalized_roundtrip_witness:
  "float_rounding (\<lambda>x. x)
   \<and> yolo_format (\<lambda>x. x) 10 20 110 220 1 640 480 = Inr (1, 3 / 32, 1 / 4, 5 / 32, 5 / 12)
   \<and> abs_pixel_coords (\<lambda>x. x) (1, 3 / 32, 1 / 4, 5 / 32, 5 / 12) 640 480 = (10, 20, 100, 200)"
proof -
  have yf: "yolo_format (\<lambda>x. x) 10 20 110 220 1 640 480 = Inr (1, 3 / 32, 1 / 4, 5 / 32, 5 / 12)"
    by (simp add: yolo_format_def)
  from normalized_roundtrip [OF float_rounding_exact_arithmetic, of 640 480 10 110 20 220 1]
  have "abs_pixel_coords (\<lambda>x. x) (1, 3 / 32, 1 / 4, 5 / 32, 5 / 12) 640 480 = (10, 20, 100, 200)"
    unfolding yf by auto
  then show ?thesis using yf float_rounding_exact_arithmetic by simp
qed

end
